theory Spec2Isabelle
  imports Main
begin

section \<open>JavaScript string primitives used by the extension\<close>

text \<open>
  A JavaScript string is a sequence of UTF-16 code units. The model uses \<^typ>\<open>string\<close>;
  each \<^typ>\<open>char\<close> stands for one code unit in the range 0..255. All primitives below
  work code unit by code unit, as their JavaScript originals do; they follow the
  ECMAScript specification of the methods of \<^verbatim>\<open>String.prototype\<close> and
  \<^verbatim>\<open>Array.prototype\<close> that the extension calls.
\<close>

text \<open>\<^verbatim>\<open>s.startsWith(pat)\<close>, the test behind every substring search.\<close>

definition startsWith :: "string \<Rightarrow> string \<Rightarrow> bool" where
  "startsWith s pat = (take (length pat) s = pat)"

text \<open>\<^verbatim>\<open>s.indexOf(pat)\<close>: the least index at which \<open>pat\<close> occurs, \<open>None\<close> for -1.\<close>

fun indexOf :: "string \<Rightarrow> string \<Rightarrow> nat option" where
  "indexOf [] pat = (if startsWith [] pat then Some 0 else None)"
| "indexOf (c # cs) pat =
     (if startsWith (c # cs) pat then Some 0 else map_option Suc (indexOf cs pat))"

text \<open>
  The replacement text of \<^verbatim>\<open>String.prototype.replace\<close> with a string pattern
  (ECMAScript GetSubstitution with no capture groups): \<^verbatim>\<open>$$\<close> stands for a dollar sign,
  \<^verbatim>\<open>$&\<close> for the matched text, \<^verbatim>\<open>$`\<close> for the text before the match and
  \<^verbatim>\<open>$'\<close> for the text after it. Every other character, also a dollar sign followed by
  digits or by \<^verbatim>\<open><\<close>, is copied.
\<close>

fun getSubstitution :: "string \<Rightarrow> string \<Rightarrow> string \<Rightarrow> string \<Rightarrow> string" where
  "getSubstitution matched pre post [] = []"
| "getSubstitution matched pre post [c] = [c]"
| "getSubstitution matched pre post (c # d # rest) =
     (if c = CHR ''$'' \<and> d = CHR ''$'' then CHR ''$'' # getSubstitution matched pre post rest
      else if c = CHR ''$'' \<and> d = CHR ''&'' then matched @ getSubstitution matched pre post rest
      else if c = CHR ''$'' \<and> d = CHR 0x60 then pre @ getSubstitution matched pre post rest
      else if c = CHR ''$'' \<and> d = CHR 0x27 then post @ getSubstitution matched pre post rest
      else c # getSubstitution matched pre post (d # rest))"

text \<open>
  \<^verbatim>\<open>s.replace(pat, rep)\<close> with a string pattern: only the first occurrence is
  replaced, and a string without the pattern is returned unchanged.
\<close>

definition replace :: "string \<Rightarrow> string \<Rightarrow> string \<Rightarrow> string" where
  "replace s pat rep =
     (case indexOf s pat of
        None \<Rightarrow> s
      | Some i \<Rightarrow>
          (let pre = take i s; post = drop (i + length pat) s
           in pre @ getSubstitution pat pre post rep @ post))"

text \<open>
  White space and line terminators of ECMAScript among the code units below 256:
  TAB, LF, VT, FF, CR, SP and NBSP.
\<close>

definition isWhiteSpace :: "char \<Rightarrow> bool" where
  "isWhiteSpace c = (c \<in> set [CHR 0x09, CHR 0x0A, CHR 0x0B, CHR 0x0C, CHR 0x0D, CHR 0x20, CHR 0xA0])"

text \<open>\<^verbatim>\<open>s.trim()\<close> removes white space at both ends.\<close>

definition trim :: "string \<Rightarrow> string" where
  "trim s = rev (dropWhile isWhiteSpace (rev (dropWhile isWhiteSpace s)))"

text \<open>
  \<^verbatim>\<open>s.split(sep)\<close> with a string separator. \<open>splitLoop sep cur rest\<close> is the scan
  for a non-empty separator: \<open>cur\<close> is the piece collected since the last match and
  \<open>rest\<close> the text still to be read.
\<close>

function splitLoop :: "string \<Rightarrow> string \<Rightarrow> string \<Rightarrow> string list" where
  "splitLoop sep cur [] = [cur]"
| "splitLoop sep cur (c # cs) =
     (if sep \<noteq> [] \<and> startsWith (c # cs) sep
      then cur # splitLoop sep [] (drop (length sep) (c # cs))
      else splitLoop sep (cur @ [c]) cs)"
  by pat_completeness auto
termination
  by (relation "measure (\<lambda>(sep, cur, rest). length rest)") auto

definition split :: "string \<Rightarrow> string \<Rightarrow> string list" where
  "split s sep =
     (if sep = [] then map (\<lambda>c. [c]) s
      else splitLoop sep [] s)"

text \<open>\<^verbatim>\<open>xs.join(sep)\<close> on an array of strings.\<close>

fun join :: "string list \<Rightarrow> string \<Rightarrow> string" where
  "join [] sep = []"
| "join [x] sep = x"
| "join (x # y # ys) sep = x @ sep @ join (y # ys) sep"

section \<open>Node's \<^verbatim>\<open>path\<close> module\<close>

text \<open>
  The extension calls four functions of Node's \<^verbatim>\<open>path\<close> module. Which implementation
  they have depends on the platform, so the resolver takes them as a parameter.
\<close>

record PathApi =
  path_dirname :: "string \<Rightarrow> string"
  path_isAbsolute :: "string \<Rightarrow> bool"
  path_join :: "string \<Rightarrow> string \<Rightarrow> string"
  path_normalize :: "string \<Rightarrow> string"

subsection \<open>The POSIX implementation\<close>

text \<open>
  The functions of \<^verbatim>\<open>path.posix\<close>, after Node's \<^verbatim>\<open>lib/path.js\<close>. The separator is
  the slash only; a backslash is an ordinary character.

  \<^verbatim>\<open>path.posix.isAbsolute\<close>: a path is absolute when it starts with a slash.
\<close>

definition posix_isAbsolute :: "string \<Rightarrow> bool" where
  "posix_isAbsolute path = (path \<noteq> [] \<and> hd path = CHR ''/'')"

text \<open>
  \<^verbatim>\<open>path.posix.dirname\<close> scans from the last index down to index 1 for the first
  slash that follows a character other than a slash; \<open>dirnameScan path i matchedSlash\<close>
  is that loop at index \<open>i\<close>, and \<open>None\<close> is the loop ending with \<^verbatim>\<open>end === -1\<close>.
\<close>

primrec dirnameScan :: "string \<Rightarrow> nat \<Rightarrow> bool \<Rightarrow> nat option" where
  "dirnameScan path 0 matchedSlash = None"
| "dirnameScan path (Suc k) matchedSlash =
     (if path ! Suc k = CHR ''/''
      then (if \<not> matchedSlash then Some (Suc k) else dirnameScan path k matchedSlash)
      else dirnameScan path k False)"

definition posix_dirname :: "string \<Rightarrow> string" where
  "posix_dirname path =
     (if path = [] then ''.''
      else
        (let hasRoot = (hd path = CHR ''/'')
         in case dirnameScan path (length path - 1) True of
              None \<Rightarrow> (if hasRoot then ''/'' else ''.'')
            | Some end \<Rightarrow> (if hasRoot \<and> end = 1 then ''//'' else take end path)))"

text \<open>
  \<^verbatim>\<open>path.posix.normalize\<close> reads the path segment by segment. \<open>segments\<close> cuts a path
  at every slash, so an empty segment stands for a leading, a trailing or a doubled
  slash.
\<close>

fun segments :: "string \<Rightarrow> string list" where
  "segments [] = [[]]"
| "segments (c # cs) =
     (if c = CHR ''/'' then [] # segments cs
      else (case segments cs of [] \<Rightarrow> [[c]] | s # ss \<Rightarrow> (c # s) # ss))"

text \<open>
  One segment of Node's \<^verbatim>\<open>normalizeString\<close>, on the list \<open>res\<close> of the segments kept
  so far: an empty segment and \<^verbatim>\<open>.\<close> are dropped; \<^verbatim>\<open>..\<close> removes the last kept
  segment unless there is none or it is \<^verbatim>\<open>..\<close> itself, in which case \<^verbatim>\<open>..\<close> is kept
  when the path may climb above its start; any other segment is kept.
\<close>

definition normalizeStep :: "bool \<Rightarrow> string list \<Rightarrow> string \<Rightarrow> string list" where
  "normalizeStep allowAboveRoot res seg =
     (if seg = [] \<or> seg = ''.'' then res
      else if seg = ''..'' then
        (if res \<noteq> [] \<and> last res \<noteq> ''..'' then butlast res
         else if allowAboveRoot then res @ [''..'']
         else res)
      else res @ [seg])"

definition normalizeString :: "string \<Rightarrow> bool \<Rightarrow> string" where
  "normalizeString path allowAboveRoot =
     join (foldl (normalizeStep allowAboveRoot) [] (segments path)) ''/''"

definition posix_normalize :: "string \<Rightarrow> string" where
  "posix_normalize path =
     (if path = [] then ''.''
      else
        (let isAbsolute = (hd path = CHR ''/'');
             trailingSeparator = (last path = CHR ''/'');
             norm = normalizeString path (\<not> isAbsolute)
         in if norm = [] then
              (if isAbsolute then ''/'' else if trailingSeparator then ''./'' else ''.'')
            else
              (let norm = (if trailingSeparator then norm @ ''/'' else norm)
               in if isAbsolute then ''/'' @ norm else norm)))"

text \<open>
  \<^verbatim>\<open>path.posix.join\<close>: the non-empty arguments are joined with slashes and the result is
  normalized; with no non-empty argument the result is \<^verbatim>\<open>.\<close>.
\<close>

definition posix_join :: "string list \<Rightarrow> string" where
  "posix_join args =
     (let parts = filter (\<lambda>arg. arg \<noteq> []) args
      in if parts = [] then ''.'' else posix_normalize (join parts ''/''))"

definition posix :: PathApi where
  "posix = \<lparr> path_dirname = posix_dirname,
             path_isAbsolute = posix_isAbsolute,
             path_join = (\<lambda>a b. posix_join [a, b]),
             path_normalize = posix_normalize \<rparr>"

section \<open>The host editor\<close>

text \<open>
  What the extension reads from the editor: the URI of the document in the active text
  editor (absent when no editor is focused), the lookup of the workspace folder of a URI,
  and the \<^verbatim>\<open>tox\<close> section of the configuration with its optional \<^verbatim>\<open>cwd\<close> entry.
\<close>

record Uri =
  fsPath :: string

record WorkspaceFolder =
  uri :: Uri

record Configuration =
  cwd :: "string option"

record Host =
  activeTextEditor :: "Uri option"
  getWorkspaceFolder :: "Uri \<Rightarrow> WorkspaceFolder option"
  configuration :: Configuration

text \<open>A thrown \<^verbatim>\<open>Error\<close> with its message.\<close>

datatype error = Error string

definition NoActiveDocument :: error where
  "NoActiveDocument = Error ''No active editor found.''"

section \<open>Project directory resolution\<close>

text \<open>
  \<^verbatim>\<open>findProjectDir\<close> of \<^verbatim>\<open>utils.ts\<close>. The two assignments to
  \<^verbatim>\<open>toxRootFolder\<close> are kept as two bindings of one name, the second on the
  configured template again as in the source. The \<^verbatim>\<open>console.log\<close> calls are left out.
\<close>

definition findProjectDir :: "PathApi \<Rightarrow> Host \<Rightarrow> error + string" where
  "findProjectDir P h =
     (case activeTextEditor h of
        None \<Rightarrow> Inl (Error ''No active editor found.'')
      | Some docUri \<Rightarrow>
          (case getWorkspaceFolder h docUri of
             None \<Rightarrow>
               (let docPath = fsPath docUri;
                    docDir = path_dirname P docPath
                in Inr docDir)
           | Some workspaceFolder \<Rightarrow>
               (let folder = fsPath (uri workspaceFolder);
                    folder =
                      (case cwd (configuration h) of
                         None \<Rightarrow> folder
                       | Some template \<Rightarrow>
                           if template = [] then folder
                           else
                             (let toxRootFolder =
                                    replace template ''${workspaceFolder}'' (fsPath (uri workspaceFolder));
                                  toxRootFolder =
                                    replace template ''${fileWorkspaceFolder}''
                                      (path_dirname P (fsPath docUri))
                              in if \<not> path_isAbsolute P toxRootFolder
                                 then path_join P (fsPath (uri workspaceFolder)) toxRootFolder
                                 else toxRootFolder))
                in Inr (path_normalize P folder))))"

text \<open>
  \<^verbatim>\<open>findProjectDir\<close> of \<^verbatim>\<open>extension.ts\<close>, the one the two commands call. It reads
  no configuration and normalizes nothing.
\<close>

definition ext_findProjectDir :: "PathApi \<Rightarrow> Host \<Rightarrow> error + string" where
  "ext_findProjectDir P h =
     (case activeTextEditor h of
        None \<Rightarrow> Inl (Error ''No active editor found.'')
      | Some docUri \<Rightarrow>
          (case getWorkspaceFolder h docUri of
             Some workspace \<Rightarrow> (let folder = fsPath (uri workspace) in Inr folder)
           | None \<Rightarrow>
               (let docPath = fsPath docUri;
                    docDir = path_dirname P docPath
                in Inr docDir)))"

section \<open>Terminals\<close>

text \<open>
  A terminal session of the editor. \<open>tid\<close> is the identity of the session (a JavaScript
  object reference in the source), \<open>name\<close> and \<open>creationCwd\<close> are the options it was
  created with, \<open>shown\<close> records a call of \<^verbatim>\<open>show\<close> and \<open>sentText\<close> the texts
  passed to \<^verbatim>\<open>sendText\<close>, oldest first. The window holds the open terminals in
  creation order (\<^verbatim>\<open>vscode.window.terminals\<close>) and the error messages shown so far.
  A terminal is in that list as soon as \<^verbatim>\<open>createTerminal\<close> has returned it.
\<close>

record Terminal =
  tid :: nat
  name :: string
  creationCwd :: string
  shown :: bool
  sentText :: "string list"

record Window =
  terminals :: "Terminal list"
  errorMessages :: "string list"

definition freshTid :: "Terminal list \<Rightarrow> nat" where
  "freshTid ts = Suc (foldr max (map tid ts) 0)"

text \<open>\<^verbatim>\<open>vscode.window.createTerminal({"cwd": dir, "name": nm})\<close>.\<close>

definition createTerminal :: "string \<Rightarrow> string \<Rightarrow> Window \<Rightarrow> Terminal \<times> Window" where
  "createTerminal dir nm w =
     (let term = \<lparr> tid = freshTid (terminals w), name = nm, creationCwd = dir,
                    shown = False, sentText = [] \<rparr>
      in (term, w\<lparr> terminals := terminals w @ [term] \<rparr>))"

definition updateTerminal :: "nat \<Rightarrow> (Terminal \<Rightarrow> Terminal) \<Rightarrow> Window \<Rightarrow> Window" where
  "updateTerminal i f w =
     w\<lparr> terminals := map (\<lambda>t. if tid t = i then f t else t) (terminals w) \<rparr>"

text \<open>\<^verbatim>\<open>term.show(preserveFocus)\<close> and \<^verbatim>\<open>term.sendText(text)\<close>.\<close>

definition showTerminal :: "Terminal \<Rightarrow> bool \<Rightarrow> Window \<Rightarrow> Window" where
  "showTerminal term preserveFocus w = updateTerminal (tid term) (\<lambda>t. t\<lparr> shown := True \<rparr>) w"

definition sendText :: "Terminal \<Rightarrow> string \<Rightarrow> Window \<Rightarrow> Window" where
  "sendText term text w =
     updateTerminal (tid term) (\<lambda>t. t\<lparr> sentText := sentText t @ [text] \<rparr>) w"

text \<open>\<^verbatim>\<open>vscode.window.showErrorMessage(message)\<close>.\<close>

definition showErrorMessage :: "string \<Rightarrow> Window \<Rightarrow> Window" where
  "showErrorMessage message w = w\<lparr> errorMessages := errorMessages w @ [message] \<rparr>"

text \<open>
  \<^verbatim>\<open>getTerminal\<close> of \<^verbatim>\<open>utils.ts\<close>. An argument left out is \<open>None\<close>; its default is
  evaluated on entry, so a call without a directory runs the resolver before the
  terminals are looked at.
\<close>

definition getTerminal ::
  "PathApi \<Rightarrow> Host \<Rightarrow> string option \<Rightarrow> string option \<Rightarrow> Window \<Rightarrow> error + (Terminal \<times> Window)" where
  "getTerminal P h projDirArg nameArg w =
     (case (case projDirArg of None \<Rightarrow> findProjectDir P h | Some dir \<Rightarrow> Inr dir) of
        Inl e \<Rightarrow> Inl e
      | Inr projDir \<Rightarrow>
          (let nm = (case nameArg of None \<Rightarrow> ''tox'' | Some n \<Rightarrow> n)
           in case find (\<lambda>terminal. name terminal = nm) (terminals w) of
                Some terminal \<Rightarrow> Inr (terminal, w)
              | None \<Rightarrow> Inr (createTerminal projDir nm w)))"

section \<open>Listing and running tox environments\<close>

text \<open>
  The operating system as the commands see it: the line separator \<^verbatim>\<open>os.EOL\<close> and the
  outcome of running a command in a directory, which is its standard output or a
  rejection. The user answers a quick pick with an item, with a list of items, or
  dismisses it (\<open>None\<close> for \<^verbatim>\<open>undefined\<close>).
\<close>

record Platform =
  EOL :: string
  exec :: "string \<Rightarrow> string \<Rightarrow> error + string"

record User =
  pickOne :: "string list \<Rightarrow> string option"
  pickMany :: "string list \<Rightarrow> string list option"

definition getToxEnvs :: "Platform \<Rightarrow> string \<Rightarrow> error + string list" where
  "getToxEnvs pf projDir =
     (case exec pf ''tox -a'' projDir of
        Inl e \<Rightarrow> Inl e
      | Inr stdout \<Rightarrow> Inr (split (trim stdout) (EOL pf)))"

definition safeGetToxEnvs :: "Platform \<Rightarrow> string \<Rightarrow> Window \<Rightarrow> string list option \<times> Window" where
  "safeGetToxEnvs pf projDir w =
     (case getToxEnvs pf projDir of
        Inr envs \<Rightarrow> (Some envs, w)
      | Inl (Error message) \<Rightarrow> (None, showErrorMessage message w))"

definition runTox :: "string list \<Rightarrow> string \<Rightarrow> Window \<Rightarrow> Window" where
  "runTox envs projDir w =
     (let (term, w) = createTerminal projDir ''tox'' w;
          envArg = join envs '','';
          w = showTerminal term True w
      in sendText term (''tox -e '' @ envArg) w)"

text \<open>
  The two commands. A value is falsy in JavaScript when it is \<^verbatim>\<open>undefined\<close> or the
  empty string; every array is truthy.
\<close>

definition selectCommand :: "PathApi \<Rightarrow> Platform \<Rightarrow> User \<Rightarrow> Host \<Rightarrow> Window \<Rightarrow> error + Window" where
  "selectCommand P pf u h w =
     (case ext_findProjectDir P h of
        Inl e \<Rightarrow> Inl e
      | Inr projDir \<Rightarrow>
          (case safeGetToxEnvs pf projDir w of
             (None, w) \<Rightarrow> Inr w
           | (Some envs, w) \<Rightarrow>
               (case pickOne u envs of
                  None \<Rightarrow> Inr w
                | Some selected \<Rightarrow>
                    if selected = [] then Inr w
                    else Inr (runTox [selected] projDir w))))"

definition selectMultipleCommand ::
  "PathApi \<Rightarrow> Platform \<Rightarrow> User \<Rightarrow> Host \<Rightarrow> Window \<Rightarrow> error + Window" where
  "selectMultipleCommand P pf u h w =
     (case ext_findProjectDir P h of
        Inl e \<Rightarrow> Inl e
      | Inr projDir \<Rightarrow>
          (case safeGetToxEnvs pf projDir w of
             (None, w) \<Rightarrow> Inr w
           | (Some envs, w) \<Rightarrow>
               (case pickMany u envs of
                  None \<Rightarrow> Inr w
                | Some selected \<Rightarrow> Inr (runTox selected projDir w))))"

text \<open>
  The override path the resolver keeps, in the words of the specification: the configured
  template with \<^verbatim>\<open>${fileWorkspaceFolder}\<close> replaced by the parent directory of the
  active document, and nothing else replaced.
\<close>

definition overridePath :: "PathApi \<Rightarrow> Uri \<Rightarrow> string \<Rightarrow> string" where
  "overridePath P docUri template =
     replace template ''${fileWorkspaceFolder}'' (path_dirname P (fsPath docUri))"

text \<open>\<open>occursIn pat s\<close>: the text \<open>pat\<close> occurs somewhere in \<open>s\<close>.\<close>

definition occursIn :: "string \<Rightarrow> string \<Rightarrow> bool" where
  "occursIn pat s = (indexOf s pat \<noteq> None)"

text \<open>
  An absolute path with redundant separators and relative segments collapsed: it starts
  with a slash, no segment is \<^verbatim>\<open>.\<close> or \<^verbatim>\<open>..\<close>, and no segment but the last is empty
  (an empty last segment is a trailing slash).
\<close>

definition collapsed :: "string \<Rightarrow> bool" where
  "collapsed path =
     (case segments path of
        [] \<Rightarrow> False
      | root # segs \<Rightarrow>
          root = [] \<and> segs \<noteq> [] \<and> (\<forall>s\<in>set (butlast segs). s \<noteq> [])
          \<and> (\<forall>s\<in>set segs. s \<noteq> ''.'' \<and> s \<noteq> ''..''))"

text \<open>
  The invariant of the segments kept by \<open>normalizeStep\<close>: none is empty, none is
  \<^verbatim>\<open>.\<close>, none has a slash, and \<^verbatim>\<open>..\<close> stands only at the front, and only when the path may
  climb above its start.
\<close>

definition kept :: "bool \<Rightarrow> string list \<Rightarrow> bool" where
  "kept allowAboveRoot res =
     ((\<forall>s\<in>set res. s \<noteq> [] \<and> s \<noteq> ''.'' \<and> CHR ''/'' \<notin> set s)
      \<and> ''..'' \<notin> set (dropWhile (\<lambda>s. s = ''..'') res)
      \<and> (\<not> allowAboveRoot \<longrightarrow> ''..'' \<notin> set res))"

section \<open>A sample session\<close>

text \<open>
  Concrete hosts, platforms and windows on which the properties below are evaluated:
  a workspace rooted at \<^verbatim>\<open>/ws\<close> with the document \<^verbatim>\<open>/ws/pkg/mod.py\<close> in the active
  editor, a tox that lists three environments, and a window in which a terminal
  named \<^verbatim>\<open>tox\<close> is already open.
\<close>

definition wsFolder :: WorkspaceFolder where
  "wsFolder = \<lparr> uri = \<lparr> fsPath = ''/ws'' \<rparr> \<rparr>"

definition folderOf :: "Uri \<Rightarrow> WorkspaceFolder option" where
  "folderOf u = (if startsWith (fsPath u) ''/ws/'' then Some wsFolder else None)"

definition hostWith :: "string option \<Rightarrow> string option \<Rightarrow> Host" where
  "hostWith doc template =
     \<lparr> activeTextEditor = map_option (\<lambda>p. \<lparr> fsPath = p \<rparr>) doc,
       getWorkspaceFolder = folderOf,
       configuration = \<lparr> cwd = template \<rparr> \<rparr>"

definition wsHost :: Host where
  "wsHost = hostWith (Some ''/ws/pkg/mod.py'') None"

definition noEditorHost :: Host where
  "noEditorHost = hostWith None None"

definition toxListing :: string where
  "toxListing = ''py39'' @ [CHR 0x0A] @ ''py310'' @ [CHR 0x0A] @ ''lint'' @ [CHR 0x0A]"

definition linux :: Platform where
  "linux = \<lparr> EOL = [CHR 0x0A], exec = (\<lambda>command dir. Inr toxListing) \<rparr>"

definition openTox :: Terminal where
  "openTox = \<lparr> tid = 0, name = ''tox'', creationCwd = ''/old'', shown = True,
               sentText = [''tox -e py39''] \<rparr>"

definition toxWindow :: Window where
  "toxWindow = \<lparr> terminals = [openTox], errorMessages = [] \<rparr>"

definition emptyWindow :: Window where
  "emptyWindow = \<lparr> terminals = [], errorMessages = [] \<rparr>"

definition userPicking :: "string option \<Rightarrow> string list option \<Rightarrow> User" where
  "userPicking one many = \<lparr> pickOne = (\<lambda>items. one), pickMany = (\<lambda>items. many) \<rparr>"

text \<open>A tox whose first line ends in a space.\<close>

definition paddedListing :: string where
  "paddedListing = ''py39 '' @ [CHR 0x0A] @ ''py310'' @ [CHR 0x0A]"

definition linuxPadded :: Platform where
  "linuxPadded = \<lparr> EOL = [CHR 0x0A], exec = (\<lambda>command dir. Inr paddedListing) \<rparr>"

text \<open>
  Hosts with an override: a template with both placeholders, and the template
  \<^verbatim>\<open>${workspaceFolder}/sub\<close>. Hosts with a document outside the workspace: a file whose
  path has a \<^verbatim>\<open>..\<close> segment, and an untitled document, whose path is its bare name.
\<close>

definition bothHost :: Host where
  "bothHost = hostWith (Some ''/ws/pkg/mod.py'') (Some ''${fileWorkspaceFolder}/${workspaceFolder}'')"

definition subHost :: Host where
  "subHost = hostWith (Some ''/ws/pkg/mod.py'') (Some ''${workspaceFolder}/sub'')"

definition outsideHost :: Host where
  "outsideHost = hostWith (Some ''/a/../b/c.py'') None"

definition untitledHost :: Host where
  "untitledHost = hostWith (Some ''Untitled-1'') None"

section \<open>Facts about the string primitives\<close>

lemma indexOf_None_iff:
  "indexOf s pat = None \<longleftrightarrow> (\<forall>i\<le>length s. \<not> startsWith (drop i s) pat)"
proof (induction s)
  case Nil
  show ?case by simp
next
  case (Cons c cs)
  have "(\<forall>i\<le>length (c # cs). \<not> startsWith (drop i (c # cs)) pat)
      \<longleftrightarrow> \<not> startsWith (c # cs) pat \<and> (\<forall>i\<le>length cs. \<not> startsWith (drop i cs) pat)"
  proof
    assume a: "\<forall>i\<le>length (c # cs). \<not> startsWith (drop i (c # cs)) pat"
    then have "\<not> startsWith (drop 0 (c # cs)) pat" by blast
    moreover have "\<not> startsWith (drop i cs) pat" if "i \<le> length cs" for i
      using a [rule_format, of "Suc i"] that by simp
    ultimately show "\<not> startsWith (c # cs) pat \<and> (\<forall>i\<le>length cs. \<not> startsWith (drop i cs) pat)"
      by simp
  next
    assume a: "\<not> startsWith (c # cs) pat \<and> (\<forall>i\<le>length cs. \<not> startsWith (drop i cs) pat)"
    show "\<forall>i\<le>length (c # cs). \<not> startsWith (drop i (c # cs)) pat"
    proof (intro allI impI)
      fix i assume "i \<le> length (c # cs)"
      then show "\<not> startsWith (drop i (c # cs)) pat"
        using a by (cases i) simp_all
    qed
  qed
  with Cons show ?case by simp
qed

lemma startsWith_append: "startsWith a pat \<Longrightarrow> startsWith (a @ b) pat"
  unfolding startsWith_def by (metis append_eq_conv_conj append.assoc append_take_drop_id)

lemma indexOf_Some:
  "indexOf s pat = Some i \<Longrightarrow> s = take i s @ pat @ drop (i + length pat) s"
proof (induction s arbitrary: i)
  case Nil
  then show ?case by (simp add: startsWith_def split: if_splits)
next
  case (Cons c cs)
  show ?case
  proof (cases "startsWith (c # cs) pat")
    case True
    with Cons.prems have "i = 0" by simp
    with True show ?thesis
      unfolding startsWith_def by (metis add_0 append_take_drop_id take_0 append_Nil)
  next
    case False
    with Cons.prems obtain j where j: "indexOf cs pat = Some j" "i = Suc j" by auto
    from Cons.IH [OF j(1)] j(2) show ?thesis by simp
  qed
qed

lemma occursIn_iff: "occursIn pat s \<longleftrightarrow> (\<exists>a b. s = a @ pat @ b)"
proof
  assume "occursIn pat s"
  then obtain i where "indexOf s pat = Some i" by (auto simp: occursIn_def)
  from indexOf_Some [OF this] show "\<exists>a b. s = a @ pat @ b" by blast
next
  assume "\<exists>a b. s = a @ pat @ b"
  then obtain a b where s: "s = a @ pat @ b" by blast
  have "startsWith (drop (length a) s) pat" by (simp add: s startsWith_def)
  moreover have "length a \<le> length s" by (simp add: s)
  ultimately show "occursIn pat s"
    unfolding occursIn_def using indexOf_None_iff by blast
qed

lemma nth_in_tl: "0 < k \<Longrightarrow> k < length xs \<Longrightarrow> xs ! k \<in> set (tl xs)"
  by (cases xs; cases k) auto

lemma nth_middle: "k < length m \<Longrightarrow> (p @ m @ q) ! (length p + k) = m ! k"
  by (simp add: nth_append)

lemma occurrences_disjoint:
  assumes eq: "pre @ F @ post = a @ W @ b"
    and F_first: "\<And>k. 0 < k \<Longrightarrow> k < length F \<Longrightarrow> F ! k \<noteq> W ! 0"
    and W_first: "\<And>k. 0 < k \<Longrightarrow> k < length W \<Longrightarrow> W ! k \<noteq> F ! 0"
    and differ: "m < length F" "m < length W" "F ! m \<noteq> W ! m"
  shows "(\<exists>b'. pre = a @ W @ b') \<or> (\<exists>a'. post = a' @ W @ b)"
proof -
  let ?s = "pre @ F @ post"
  let ?i = "length pre" and ?j = "length a"
  have F_at: "?s ! (?i + k) = F ! k" if "k < length F" for k
    using that by (rule nth_middle)
  have W_at: "?s ! (?j + k) = W ! k" if "k < length W" for k
    unfolding eq using that by (rule nth_middle)
  consider (left) "?j + length W \<le> ?i" | (right) "?i + length F \<le> ?j"
    | (inF) "?i \<le> ?j" "?j < ?i + length F" | (inW) "?j < ?i" "?i < ?j + length W"
    by linarith
  then show ?thesis
  proof cases
    case left
    have "take (?j + length W) ?s = take (?j + length W) pre" using left by simp
    moreover have "take (?j + length W) ?s = a @ W" unfolding eq by simp
    ultimately have "pre = a @ W @ drop (?j + length W) pre"
      by (metis append.assoc append_take_drop_id)
    then show ?thesis by blast
  next
    case right
    have "drop (?i + length F) ?s = post" by simp
    moreover have "drop (?i + length F) ?s = drop (?i + length F) a @ W @ b"
      unfolding eq using right by simp
    ultimately show ?thesis by metis
  next
    case inF
    then obtain k where k: "?j = ?i + k" "k < length F"
      by (metis le_Suc_ex nat_add_left_cancel_less)
    have "?s ! (?j + 0) = W ! 0" using differ(2) by (intro W_at) auto
    with F_at [OF k(2)] k(1) have "F ! k = W ! 0" by simp
    with F_first [of k] k(2) have "k = 0" by auto
    with k have ij: "?j = ?i" by simp
    have "?s ! (?j + m) = W ! m" using differ(2) by (rule W_at)
    moreover have "?s ! (?i + m) = F ! m" using differ(1) by (rule F_at)
    ultimately show ?thesis using ij differ(3) by simp
  next
    case inW
    then obtain k where k: "?i = ?j + k" "0 < k" "k < length W"
      by (metis less_imp_add_positive nat_add_left_cancel_less)
    have "?s ! (?i + 0) = F ! 0" using differ(1) by (intro F_at) auto
    with W_at [OF k(3)] k(1) have "W ! k = F ! 0" by simp
    with W_first [OF k(2,3)] show ?thesis by simp
  qed
qed

lemma placeholders_disjoint:
  assumes eq: "pre @ ''${fileWorkspaceFolder}'' @ post = a @ ''${workspaceFolder}'' @ b"
  shows "(\<exists>b'. pre = a @ ''${workspaceFolder}'' @ b') \<or> (\<exists>a'. post = a' @ ''${workspaceFolder}'' @ b)"
proof (rule occurrences_disjoint [OF eq, where m = 2])
  fix k :: nat assume "0 < k" "k < length ''${fileWorkspaceFolder}''"
  then have "''${fileWorkspaceFolder}'' ! k \<in> set (tl ''${fileWorkspaceFolder}'')"
    by (rule nth_in_tl)
  then show "''${fileWorkspaceFolder}'' ! k \<noteq> ''${workspaceFolder}'' ! 0" by auto
next
  fix k :: nat assume "0 < k" "k < length ''${workspaceFolder}''"
  then have "''${workspaceFolder}'' ! k \<in> set (tl ''${workspaceFolder}'')"
    by (rule nth_in_tl)
  then show "''${workspaceFolder}'' ! k \<noteq> ''${fileWorkspaceFolder}'' ! 0" by auto
qed simp_all

lemma replace_keeps_workspaceFolder:
  assumes "occursIn ''${workspaceFolder}'' template"
  shows "occursIn ''${workspaceFolder}'' (replace template ''${fileWorkspaceFolder}'' rep)"
proof (cases "indexOf template ''${fileWorkspaceFolder}''")
  case None
  with assms show ?thesis by (simp add: replace_def)
next
  case (Some i)
  define pre where "pre = take i template"
  define post where "post = drop (i + length ''${fileWorkspaceFolder}'') template"
  define sub where "sub = getSubstitution ''${fileWorkspaceFolder}'' pre post rep"
  have t: "template = pre @ ''${fileWorkspaceFolder}'' @ post"
    unfolding pre_def post_def by (rule indexOf_Some [OF Some])
  have r: "replace template ''${fileWorkspaceFolder}'' rep = pre @ sub @ post"
    using Some by (simp add: replace_def pre_def post_def sub_def Let_def)
  from assms obtain a b where "template = a @ ''${workspaceFolder}'' @ b"
    unfolding occursIn_iff by blast
  with t have "pre @ ''${fileWorkspaceFolder}'' @ post = a @ ''${workspaceFolder}'' @ b" by simp
  from placeholders_disjoint [OF this] show ?thesis
  proof
    assume "\<exists>b'. pre = a @ ''${workspaceFolder}'' @ b'"
    then obtain b' where "pre = a @ ''${workspaceFolder}'' @ b'" by blast
    then have "pre @ sub @ post = a @ ''${workspaceFolder}'' @ (b' @ sub @ post)" by simp
    then show ?thesis unfolding r occursIn_iff by blast
  next
    assume "\<exists>a'. post = a' @ ''${workspaceFolder}'' @ b"
    then obtain a' where "post = a' @ ''${workspaceFolder}'' @ b" by blast
    then have "pre @ sub @ post = (pre @ sub @ a') @ ''${workspaceFolder}'' @ b" by simp
    then show ?thesis unfolding r occursIn_iff by blast
  qed
qed

lemma getSubstitution_plain: "CHR ''$'' \<notin> set rep \<Longrightarrow> getSubstitution m p q rep = rep"
  by (induction m p q rep rule: getSubstitution.induct) auto

lemma replace_absent: "\<not> occursIn pat s \<Longrightarrow> replace s pat rep = s"
  by (simp add: replace_def occursIn_def)

section \<open>Running environments in a terminal\<close>

lemma tid_less_freshTid: "t \<in> set ts \<Longrightarrow> tid t < freshTid ts"
  by (induction ts) (auto simp: freshTid_def)

lemma freshTid_notin: "freshTid ts \<notin> tid ` set ts"
  using tid_less_freshTid by fastforce

lemma map_update_fresh:
  "i \<notin> tid ` set ts \<Longrightarrow> map (\<lambda>t. if tid t = i then f t else t) ts = ts"
  by (induction ts) auto

lemma updateTerminal_new:
  "tid t \<notin> tid ` set ts \<Longrightarrow>
   updateTerminal (tid t) f (w\<lparr> terminals := ts @ [t] \<rparr>) = w\<lparr> terminals := ts @ [f t] \<rparr>"
  by (simp add: updateTerminal_def map_update_fresh)

lemma runTox_eq:
  "runTox envs projDir w =
     w\<lparr> terminals := terminals w @
          [\<lparr> tid = freshTid (terminals w), name = ''tox'', creationCwd = projDir,
             shown = True, sentText = [''tox -e '' @ join envs '',''] \<rparr>] \<rparr>"
proof -
  define t0 where "t0 = \<lparr> tid = freshTid (terminals w), name = ''tox'', creationCwd = projDir,
                          shown = False, sentText = [] \<rparr>"
  have fresh: "tid t0 \<notin> tid ` set (terminals w)"
    by (simp add: t0_def freshTid_notin)
  have fresh': "tid (t0\<lparr> shown := True \<rparr>) \<notin> tid ` set (terminals w)"
    using fresh by simp
  have created: "createTerminal projDir ''tox'' w = (t0, w\<lparr> terminals := terminals w @ [t0] \<rparr>)"
    by (simp add: createTerminal_def t0_def Let_def)
  have "showTerminal t0 True (w\<lparr> terminals := terminals w @ [t0] \<rparr>)
          = w\<lparr> terminals := terminals w @ [t0\<lparr> shown := True \<rparr>] \<rparr>"
    unfolding showTerminal_def by (rule updateTerminal_new [OF fresh])
  moreover have "sendText t0 msg (w\<lparr> terminals := terminals w @ [t0\<lparr> shown := True \<rparr>] \<rparr>)
          = w\<lparr> terminals := terminals w @ [t0\<lparr> shown := True, sentText := [msg] \<rparr>] \<rparr>" for msg
    unfolding sendText_def using updateTerminal_new [OF fresh', of "\<lambda>t. t\<lparr>sentText := sentText t @ [msg]\<rparr>" w]
    by (simp add: t0_def)
  ultimately show ?thesis
    by (simp add: runTox_def created t0_def Let_def)
qed

lemma runTox_terminals:
  "terminals (runTox envs projDir w) =
     terminals w @ [\<lparr> tid = freshTid (terminals w), name = ''tox'', creationCwd = projDir,
                      shown = True, sentText = [''tox -e '' @ join envs '',''] \<rparr>]"
  by (simp add: runTox_eq)

lemma runTox_errorMessages: "errorMessages (runTox envs projDir w) = errorMessages w"
  by (simp add: runTox_eq)

lemma runTox_length: "length (terminals (runTox envs projDir w)) = Suc (length (terminals w))"
  by (simp add: runTox_terminals)

lemma runTox_funpow_length:
  "length (terminals ((runTox envs projDir ^^ n) w)) = length (terminals w) + n"
  by (induction n) (simp_all add: runTox_length)

text \<open>
  Claim C9. Running environments sends exactly one text, \<^verbatim>\<open>tox -e\<close> and a space followed
  by the environment names joined with commas, to the terminal that the run creates, and
  nothing to any other terminal. For \<^verbatim>\<open>py39\<close> alone the text is \<^verbatim>\<open>tox -e py39\<close>; for
  \<^verbatim>\<open>py39\<close> and \<^verbatim>\<open>lint\<close> it is \<^verbatim>\<open>tox -e py39,lint\<close>.
\<close>

theorem runTox_sends_tox_e:
  "sentText (last (terminals (runTox envs projDir w))) = [''tox -e '' @ join envs '','']
   \<and> butlast (terminals (runTox envs projDir w)) = terminals w
   \<and> sentText (last (terminals (runTox [''py39''] projDir w))) = [''tox -e py39'']
   \<and> sentText (last (terminals (runTox [''py39'', ''lint''] projDir w))) = [''tox -e py39,lint'']"
  by (simp add: runTox_terminals)

section \<open>Listing the environments\<close>

lemma splitLoop_no_sep:
  assumes "sep \<noteq> []"
    and "\<forall>i<length cur. \<not> startsWith (drop i (cur @ rest)) sep"
    and "x \<in> set (splitLoop sep cur rest)"
  shows "indexOf x sep = None"
  using assms
proof (induction sep cur rest rule: splitLoop.induct)
  case (1 sep cur)
  then have x: "x = cur" by simp
  have "\<not> startsWith (drop i cur) sep" if "i \<le> length cur" for i
  proof (cases "i < length cur")
    case True
    with 1(2) show ?thesis by simp
  next
    case False
    with 1(1) show ?thesis by (simp add: startsWith_def)
  qed
  then show ?case by (simp add: x indexOf_None_iff)
next
  case (2 sep cur c cs)
  show ?case
  proof (cases "startsWith (c # cs) sep")
    case True
    with 2(3,5) consider "x = cur" | "x \<in> set (splitLoop sep [] (drop (length sep) (c # cs)))"
      by auto
    then show ?thesis
    proof cases
      case 1
      have "\<not> startsWith (drop i cur) sep" if "i \<le> length cur" for i
      proof (cases "i < length cur")
        case True
        with 2(4) have "\<not> startsWith (drop i cur @ (c # cs)) sep" by simp
        then show ?thesis using startsWith_append by blast
      next
        case False
        with 2(3) show ?thesis by (simp add: startsWith_def)
      qed
      then show ?thesis by (simp add: 1 indexOf_None_iff)
    next
      case 2
      with True "2.IH"(1) "2.prems"(1) show ?thesis by simp
    qed
  next
    case False
    have inv: "\<forall>i<length (cur @ [c]). \<not> startsWith (drop i ((cur @ [c]) @ cs)) sep"
    proof (intro allI impI)
      fix i assume "i < length (cur @ [c])"
      then consider "i < length cur" | "i = length cur" by fastforce
      then show "\<not> startsWith (drop i ((cur @ [c]) @ cs)) sep"
      proof cases
        case 1
        with 2(4) show ?thesis by simp
      next
        case 2
        with False show ?thesis by simp
      qed
    qed
    from False 2(5) have "x \<in> set (splitLoop sep (cur @ [c]) cs)" by simp
    with False "2.IH"(2) "2.prems"(1) inv show ?thesis by simp
  qed
qed

lemma split_no_sep: "sep \<noteq> [] \<Longrightarrow> x \<in> set (split s sep) \<Longrightarrow> indexOf x sep = None"
  using splitLoop_no_sep [of sep "[]" s x] by (simp add: split_def)

lemma splitLoop_nonempty: "splitLoop sep cur rest \<noteq> []"
  by (induction sep cur rest rule: splitLoop.induct) auto

lemma join_Cons: "xs \<noteq> [] \<Longrightarrow> join (x # xs) sep = x @ sep @ join xs sep"
  by (cases xs) simp_all

lemma startsWith_split: "startsWith s pat \<Longrightarrow> pat @ drop (length pat) s = s"
  unfolding startsWith_def by (metis append_take_drop_id)

lemma join_splitLoop: "sep \<noteq> [] \<Longrightarrow> join (splitLoop sep cur rest) sep = cur @ rest"
proof (induction sep cur rest rule: splitLoop.induct)
  case (1 sep cur)
  show ?case by simp
next
  case (2 sep cur c cs)
  show ?case
  proof (cases "startsWith (c # cs) sep")
    case True
    with 2 have "join (splitLoop sep [] (drop (length sep) (c # cs))) sep = drop (length sep) (c # cs)"
      by simp
    with True 2(3) show ?thesis
      by (simp add: join_Cons splitLoop_nonempty startsWith_split del: drop_Suc_Cons)
  next
    case False
    with 2 show ?thesis by simp
  qed
qed

lemma join_split: "sep \<noteq> [] \<Longrightarrow> join (split s sep) sep = s"
  by (simp add: split_def join_splitLoop)

lemma dropWhile_hd: "dropWhile p xs \<noteq> [] \<Longrightarrow> \<not> p (hd (dropWhile p xs))"
  by (metis hd_dropWhile)

lemma trim_ends:
  assumes "trim s \<noteq> []"
  shows "\<not> isWhiteSpace (hd (trim s)) \<and> \<not> isWhiteSpace (last (trim s))"
proof -
  let ?a = "dropWhile isWhiteSpace s"
  let ?b = "dropWhile isWhiteSpace (rev ?a)"
  from assms have b: "?b \<noteq> []" by (simp add: trim_def)
  then have lastb: "\<not> isWhiteSpace (hd ?b)" by (rule dropWhile_hd)
  then have l: "\<not> isWhiteSpace (last (trim s))"
    using b by (simp add: trim_def last_rev)
  from b have a: "?a \<noteq> []" by (metis dropWhile.simps(1) rev.simps(1))
  then have ha: "\<not> isWhiteSpace (hd ?a)" by (rule dropWhile_hd)
  obtain pre where pre: "rev ?a = pre @ ?b"
    by (metis takeWhile_dropWhile_id)
  then have "?a = rev ?b @ rev pre"
    by (metis rev_append rev_rev_ident)
  with b have "hd ?a = hd (rev ?b)" by (metis hd_append2 rev_is_Nil_conv)
  with ha show ?thesis using l by (simp add: trim_def)
qed

text \<open>
  Claim C6, as amended. The environment list of an output is the split, at the line
  separator, of the output with the white space at both of its ends removed. For a
  non-empty separator the elements joined with the separator give the trimmed output
  back, so they are the lines in their order, and no element contains the separator.
  The trimmed output neither starts nor ends with white space; the elements are not
  trimmed one by one. The output \<^verbatim>\<open>py39\<close>, \<^verbatim>\<open>py310\<close>, \<^verbatim>\<open>lint\<close> on three lines
  separated by line feeds gives the list of these three names.
\<close>

theorem getToxEnvs_split_of_trimmed:
  "(exec pf ''tox -a'' projDir = Inr stdout \<longrightarrow>
     getToxEnvs pf projDir = Inr (split (trim stdout) (EOL pf))
     \<and> (EOL pf \<noteq> [] \<longrightarrow>
          join (split (trim stdout) (EOL pf)) (EOL pf) = trim stdout
          \<and> (\<forall>x\<in>set (split (trim stdout) (EOL pf)). indexOf x (EOL pf) = None))
     \<and> (trim stdout \<noteq> [] \<longrightarrow>
          \<not> isWhiteSpace (hd (trim stdout)) \<and> \<not> isWhiteSpace (last (trim stdout))))
   \<and> getToxEnvs
         \<lparr> EOL = [CHR 0x0A],
           exec = (\<lambda>command dir. Inr (''py39'' @ [CHR 0x0A] @ ''py310'' @ [CHR 0x0A] @ ''lint'')) \<rparr>
         projDir
       = Inr [''py39'', ''py310'', ''lint'']"
proof
  show "exec pf ''tox -a'' projDir = Inr stdout \<longrightarrow>
     getToxEnvs pf projDir = Inr (split (trim stdout) (EOL pf))
     \<and> (EOL pf \<noteq> [] \<longrightarrow>
          join (split (trim stdout) (EOL pf)) (EOL pf) = trim stdout
          \<and> (\<forall>x\<in>set (split (trim stdout) (EOL pf)). indexOf x (EOL pf) = None))
     \<and> (trim stdout \<noteq> [] \<longrightarrow>
          \<not> isWhiteSpace (hd (trim stdout)) \<and> \<not> isWhiteSpace (last (trim stdout)))"
    by (simp add: getToxEnvs_def join_split split_no_sep trim_ends)
  show "getToxEnvs
         \<lparr> EOL = [CHR 0x0A],
           exec = (\<lambda>command dir. Inr (''py39'' @ [CHR 0x0A] @ ''py310'' @ [CHR 0x0A] @ ''lint'')) \<rparr>
         projDir
       = Inr [''py39'', ''py310'', ''lint'']"
    by (simp add: getToxEnvs_def trim_def isWhiteSpace_def split_def startsWith_def)
qed

theorem getToxEnvs_split_of_trimmed_witness:
  "exec linux ''tox -a'' ''/ws'' = Inr toxListing
   \<and> EOL linux \<noteq> []
   \<and> trim toxListing = ''py39'' @ [CHR 0x0A] @ ''py310'' @ [CHR 0x0A] @ ''lint''
   \<and> getToxEnvs linux ''/ws'' = Inr [''py39'', ''py310'', ''lint'']
   \<and> join [''py39'', ''py310'', ''lint''] (EOL linux) = trim toxListing"
proof -
  have run: "exec linux ''tox -a'' ''/ws'' = Inr toxListing"
    by (simp add: linux_def)
  have eol: "EOL linux \<noteq> []"
    by (simp add: linux_def)
  have trimmed: "trim toxListing = ''py39'' @ [CHR 0x0A] @ ''py310'' @ [CHR 0x0A] @ ''lint''"
    by (simp add: toxListing_def trim_def isWhiteSpace_def)
  have parts: "split (trim toxListing) (EOL linux) = [''py39'', ''py310'', ''lint'']"
    by (simp add: trimmed linux_def split_def startsWith_def)
  show ?thesis
    using getToxEnvs_split_of_trimmed [of linux "''/ws''" toxListing] run eol trimmed parts
    by simp
qed

text \<open>
  The claim as first stated fails: when a line of the output ends in a space, so does
  the element of the list.
\<close>

theorem getToxEnvs_elements_untrimmed:
  "getToxEnvs linuxPadded ''/ws'' = Inr [''py39 '', ''py310'']
   \<and> trim ''py39 '' \<noteq> ''py39 ''"
  by (simp add: getToxEnvs_def linuxPadded_def paddedListing_def trim_def isWhiteSpace_def
      split_def startsWith_def)

section \<open>The commands\<close>

lemma select_run:
  "ext_findProjectDir P h = Inr projDir \<Longrightarrow> getToxEnvs pf projDir = Inr items \<Longrightarrow>
   pickOne u items = Some sel \<Longrightarrow> sel \<noteq> [] \<Longrightarrow>
   selectCommand P pf u h w = Inr (runTox [sel] projDir w)"
  by (simp add: selectCommand_def safeGetToxEnvs_def)

lemma selectMultiple_run:
  "ext_findProjectDir P h = Inr projDir \<Longrightarrow> getToxEnvs pf projDir = Inr items \<Longrightarrow>
   pickMany u items = Some sels \<Longrightarrow>
   selectMultipleCommand P pf u h w = Inr (runTox sels projDir w)"
  by (simp add: selectMultipleCommand_def safeGetToxEnvs_def)

text \<open>
  Claim C10. Every run creates a new terminal named \<^verbatim>\<open>tox\<close> with the given directory,
  whatever terminals are already open: the new terminal is appended, its identity differs
  from that of every open terminal, and \<open>n\<close> runs add \<open>n\<close> terminals. Both commands
  reach the run directly, without the name-keyed lookup of \<^verbatim>\<open>getTerminal\<close>.
\<close>

theorem runTox_creates_new_terminal:
  "terminals (runTox envs projDir w) =
     terminals w @ [\<lparr> tid = freshTid (terminals w), name = ''tox'', creationCwd = projDir,
                      shown = True, sentText = [''tox -e '' @ join envs '',''] \<rparr>]
   \<and> freshTid (terminals w) \<notin> tid ` set (terminals w)
   \<and> length (terminals ((runTox envs projDir ^^ n) w)) = length (terminals w) + n
   \<and> (ext_findProjectDir P h = Inr projDir \<and> getToxEnvs pf projDir = Inr items
        \<and> pickOne u items = Some sel \<and> sel \<noteq> []
        \<longrightarrow> selectCommand P pf u h w = Inr (runTox [sel] projDir w))
   \<and> (ext_findProjectDir P h = Inr projDir \<and> getToxEnvs pf projDir = Inr items
        \<and> pickMany u items = Some sels
        \<longrightarrow> selectMultipleCommand P pf u h w = Inr (runTox sels projDir w))"
  by (simp add: runTox_terminals freshTid_notin runTox_funpow_length select_run selectMultiple_run)

lemma ex_dir: "ext_findProjectDir posix wsHost = Inr ''/ws''"
  by (simp add: ext_findProjectDir_def wsHost_def hostWith_def folderOf_def startsWith_def wsFolder_def)

lemma ex_envs: "getToxEnvs linux ''/ws'' = Inr [''py39'', ''py310'', ''lint'']"
  by (simp add: getToxEnvs_def linux_def toxListing_def trim_def isWhiteSpace_def split_def startsWith_def)

theorem runTox_creates_new_terminal_witness:
  "ext_findProjectDir posix wsHost = Inr ''/ws''
   \<and> getToxEnvs linux ''/ws'' = Inr [''py39'', ''py310'', ''lint'']
   \<and> selectCommand posix linux (userPicking (Some ''py39'') None) wsHost toxWindow
       = Inr (runTox [''py39''] ''/ws'' toxWindow)
   \<and> selectMultipleCommand posix linux (userPicking None (Some [''py39'', ''lint''])) wsHost toxWindow
       = Inr (runTox [''py39'', ''lint''] ''/ws'' toxWindow)
   \<and> map name (terminals (runTox [''py39''] ''/ws'' toxWindow)) = [''tox'', ''tox'']
   \<and> map tid (terminals (runTox [''py39''] ''/ws'' toxWindow)) = [0, 1]"
  using runTox_creates_new_terminal [of "[''py39'']" "''/ws''" toxWindow 0 posix wsHost linux
      "[''py39'', ''py310'', ''lint'']" "userPicking (Some ''py39'') None" "''py39''"
      "[''py39'', ''lint'']"]
    runTox_creates_new_terminal [of "[''py39'']" "''/ws''" toxWindow 0 posix wsHost linux
      "[''py39'', ''py310'', ''lint'']" "userPicking None (Some [''py39'', ''lint''])" "''py39''"
      "[''py39'', ''lint'']"]
    ex_dir ex_envs
  by (simp add: userPicking_def toxWindow_def openTox_def freshTid_def)

lemma select_cancelled:
  "pickOne u = (\<lambda>items. None) \<Longrightarrow> ext_findProjectDir P h = Inr projDir \<Longrightarrow>
   getToxEnvs pf projDir = Inr items \<Longrightarrow>
   selectCommand P pf u h w = Inr w"
  by (simp add: selectCommand_def safeGetToxEnvs_def)

lemma select_empty_string:
  "pickOne u = (\<lambda>items. Some []) \<Longrightarrow> ext_findProjectDir P h = Inr projDir \<Longrightarrow>
   getToxEnvs pf projDir = Inr items \<Longrightarrow>
   selectCommand P pf u h w = Inr w"
  by (simp add: selectCommand_def safeGetToxEnvs_def)

lemma selectMultiple_cancelled:
  "pickMany u = (\<lambda>items. None) \<Longrightarrow> ext_findProjectDir P h = Inr projDir \<Longrightarrow>
   getToxEnvs pf projDir = Inr items \<Longrightarrow>
   selectMultipleCommand P pf u h w = Inr w"
  by (simp add: selectMultipleCommand_def safeGetToxEnvs_def)

text \<open>
  Claim C7. A dismissed prompt and, in the single pick, the empty string end the command
  with the window as it was (the three lemmas above). An empty selection in the multiple
  pick is the empty array, which is truthy: the command goes on to the run, which opens
  a terminal and sends \<^verbatim>\<open>tox -e\<close> followed by a space and no environment.
\<close>

theorem selectMultipleCommand_empty_selection_runs:
  "selectMultipleCommand posix linux (userPicking None (Some [])) wsHost emptyWindow =
     Inr \<lparr> terminals = [\<lparr> tid = 1, name = ''tox'', creationCwd = ''/ws'', shown = True,
                           sentText = [''tox -e ''] \<rparr>],
           errorMessages = [] \<rparr>"
  by (simp add: selectMultiple_run [OF ex_dir ex_envs] userPicking_def runTox_eq emptyWindow_def
      freshTid_def)

text \<open>
  Claim C8. With no active editor both resolvers fail with \<^verbatim>\<open>No active editor found.\<close>
  and return no path, and the failure ends either command before anything is shown or
  created; with an active editor the resolvers return a path.
\<close>

theorem findProjectDir_NoActiveDocument:
  "(activeTextEditor h = None \<longrightarrow>
      findProjectDir P h = Inl NoActiveDocument \<and> ext_findProjectDir P h = Inl NoActiveDocument
      \<and> selectCommand P pf u h w = Inl NoActiveDocument
      \<and> selectMultipleCommand P pf u h w = Inl NoActiveDocument)
   \<and> (activeTextEditor h \<noteq> None \<longrightarrow>
      (\<exists>dir. findProjectDir P h = Inr dir) \<and> (\<exists>dir. ext_findProjectDir P h = Inr dir))"
  by (auto simp: findProjectDir_def ext_findProjectDir_def selectCommand_def
      selectMultipleCommand_def NoActiveDocument_def Let_def split: option.splits)

theorem findProjectDir_NoActiveDocument_witness:
  "activeTextEditor noEditorHost = None
   \<and> findProjectDir posix noEditorHost = Inl (Error ''No active editor found.'')
   \<and> selectCommand posix linux (userPicking (Some ''py39'') None) noEditorHost toxWindow
        = Inl (Error ''No active editor found.'')
   \<and> activeTextEditor wsHost \<noteq> None
   \<and> (\<exists>dir. findProjectDir posix wsHost = Inr dir)"
  using
    findProjectDir_NoActiveDocument
      [of noEditorHost posix linux "userPicking (Some ''py39'') None" toxWindow]
    findProjectDir_NoActiveDocument
      [of wsHost posix linux "userPicking (Some ''py39'') None" toxWindow]
  by (simp add: noEditorHost_def wsHost_def hostWith_def NoActiveDocument_def)

section \<open>Terminal reuse\<close>

lemma find_first:
  "ts = pre @ t # post \<Longrightarrow> p t \<Longrightarrow> \<forall>x\<in>set pre. \<not> p x \<Longrightarrow> find p ts = Some t"
  by (induction pre arbitrary: ts) auto

lemma find_none: "\<forall>x\<in>set ts. \<not> p x \<Longrightarrow> find p ts = None"
  by (induction ts) auto

lemma getTerminal_found:
  "find (\<lambda>t. name t = nm) (terminals w) = Some t \<Longrightarrow>
   getTerminal P h (Some dir) (Some nm) w = Inr (t, w)"
  by (simp add: getTerminal_def)

lemma getTerminal_created:
  "find (\<lambda>t. name t = nm) (terminals w) = None \<Longrightarrow>
   getTerminal P h (Some dir) (Some nm) w =
     Inr (\<lparr> tid = freshTid (terminals w), name = nm, creationCwd = dir, shown = False, sentText = [] \<rparr>,
          w\<lparr> terminals := terminals w @
               [\<lparr> tid = freshTid (terminals w), name = nm, creationCwd = dir, shown = False, sentText = [] \<rparr>] \<rparr>)"
  by (simp add: getTerminal_def createTerminal_def Let_def)

lemma getTerminal_twice:
  assumes "getTerminal P h (Some dir1) (Some nm) w = Inr (t1, w1)"
    and "getTerminal P h (Some dir2) (Some nm) w1 = Inr (t2, w2)"
  shows "t2 = t1 \<and> w2 = w1"
proof (cases "find (\<lambda>t. name t = nm) (terminals w)")
  case None
  then have none: "\<forall>x\<in>set (terminals w). name x \<noteq> nm"
    by (simp add: find_None_iff)
  from assms(1) None have t1: "t1 = \<lparr> tid = freshTid (terminals w), name = nm, creationCwd = dir1, shown = False, sentText = [] \<rparr>"
    and w1: "w1 = w\<lparr> terminals := terminals w @ [t1] \<rparr>"
    by (auto simp: getTerminal_created)
  have "find (\<lambda>t. name t = nm) (terminals w1) = Some t1"
    by (rule find_first [where pre = "terminals w" and post = "[]"]) (use none t1 w1 in simp_all)
  with assms(2) show ?thesis
    by (simp add: getTerminal_found)
next
  case (Some t)
  with assms(1) have "t1 = t" "w1 = w"
    by (simp_all add: getTerminal_found)
  with Some assms(2) show ?thesis
    by (simp add: getTerminal_found)
qed

text \<open>
  Claim C5. \<^verbatim>\<open>getTerminal\<close> called with a directory and a name returns the first open
  terminal with exactly that name and leaves the window as it is, whatever directory that
  terminal was created with; two calls in a row with one name and two directories return
  the same terminal; when no open terminal has the name, exactly one terminal with the
  given name and directory is appended and returned.
\<close>

theorem getTerminal_reuses_by_name:
  "(terminals w = pre @ t # post \<and> name t = nm \<and> (\<forall>x\<in>set pre. name x \<noteq> nm)
      \<longrightarrow> getTerminal P h (Some dir) (Some nm) w = Inr (t, w))
   \<and> (getTerminal P h (Some dir1) (Some nm) w = Inr (t1, w1)
        \<and> getTerminal P h (Some dir2) (Some nm) w1 = Inr (t2, w2)
      \<longrightarrow> t2 = t1 \<and> w2 = w1)
   \<and> ((\<forall>x\<in>set (terminals w). name x \<noteq> nm)
      \<longrightarrow> getTerminal P h (Some dir) (Some nm) w =
            Inr (\<lparr> tid = freshTid (terminals w), name = nm, creationCwd = dir, shown = False, sentText = [] \<rparr>,
                 w\<lparr> terminals := terminals w @
                   [\<lparr> tid = freshTid (terminals w), name = nm, creationCwd = dir, shown = False, sentText = [] \<rparr>] \<rparr>))"
proof (intro conjI impI)
  assume "terminals w = pre @ t # post \<and> name t = nm \<and> (\<forall>x\<in>set pre. name x \<noteq> nm)"
  then have "find (\<lambda>t. name t = nm) (terminals w) = Some t"
    using find_first [of "terminals w" pre t post "\<lambda>t. name t = nm"] by simp
  then show "getTerminal P h (Some dir) (Some nm) w = Inr (t, w)"
    by (rule getTerminal_found)
next
  assume "getTerminal P h (Some dir1) (Some nm) w = Inr (t1, w1)
        \<and> getTerminal P h (Some dir2) (Some nm) w1 = Inr (t2, w2)"
  then show "t2 = t1" "w2 = w1"
    using getTerminal_twice by blast+
next
  assume "\<forall>x\<in>set (terminals w). name x \<noteq> nm"
  then have "find (\<lambda>t. name t = nm) (terminals w) = None"
    by (simp add: find_none)
  then show "getTerminal P h (Some dir) (Some nm) w =
            Inr (\<lparr> tid = freshTid (terminals w), name = nm, creationCwd = dir, shown = False, sentText = [] \<rparr>,
                 w\<lparr> terminals := terminals w @
                   [\<lparr> tid = freshTid (terminals w), name = nm, creationCwd = dir, shown = False, sentText = [] \<rparr>] \<rparr>)"
    by (rule getTerminal_created)
qed

theorem getTerminal_reuses_by_name_witness:
  "getTerminal posix wsHost (Some ''/ws'') (Some ''tox'') toxWindow = Inr (openTox, toxWindow)
   \<and> getTerminal posix wsHost (Some ''/elsewhere'') (Some ''tox'') toxWindow = Inr (openTox, toxWindow)
   \<and> creationCwd openTox = ''/old''
   \<and> getTerminal posix wsHost (Some ''/ws'') (Some ''Tox'') toxWindow =
        Inr (\<lparr> tid = 1, name = ''Tox'', creationCwd = ''/ws'', shown = False, sentText = [] \<rparr>,
             \<lparr> terminals = [openTox, \<lparr> tid = 1, name = ''Tox'', creationCwd = ''/ws'', shown = False,
                                        sentText = [] \<rparr>],
               errorMessages = [] \<rparr>)"
proof -
  have first: "terminals toxWindow = [] @ openTox # [] \<and> name openTox = ''tox''
      \<and> (\<forall>x\<in>set []. name x \<noteq> ''tox'')"
    by (simp add: toxWindow_def openTox_def)
  have a: "getTerminal posix wsHost (Some ''/ws'') (Some ''tox'') toxWindow = Inr (openTox, toxWindow)"
    using getTerminal_reuses_by_name [of toxWindow "[]" openTox "[]" "''tox''" posix wsHost "''/ws''"]
      first by blast
  have b: "getTerminal posix wsHost (Some ''/elsewhere'') (Some ''tox'') toxWindow = Inr (openTox, toxWindow)"
    using getTerminal_reuses_by_name [of toxWindow "[]" openTox "[]" "''tox''" posix wsHost "''/elsewhere''"]
      first by blast
  have same: "openTox = openTox \<and> toxWindow = toxWindow"
    using getTerminal_reuses_by_name [of toxWindow "[]" openTox "[]" "''tox''" posix wsHost "''/ws''"
        "''/ws''" openTox toxWindow "''/elsewhere''" openTox toxWindow] a b by blast
  have none: "\<forall>x\<in>set (terminals toxWindow). name x \<noteq> ''Tox''"
    by (simp add: toxWindow_def openTox_def)
  have c: "getTerminal posix wsHost (Some ''/ws'') (Some ''Tox'') toxWindow =
        Inr (\<lparr> tid = freshTid (terminals toxWindow), name = ''Tox'', creationCwd = ''/ws'',
               shown = False, sentText = [] \<rparr>,
             toxWindow\<lparr> terminals := terminals toxWindow @
               [\<lparr> tid = freshTid (terminals toxWindow), name = ''Tox'', creationCwd = ''/ws'',
                  shown = False, sentText = [] \<rparr>] \<rparr>)"
    using getTerminal_reuses_by_name [of toxWindow "[]" openTox "[]" "''Tox''" posix wsHost "''/ws''"]
      none by blast
  show ?thesis
    using a b c by (simp add: toxWindow_def openTox_def freshTid_def)
qed

section \<open>Facts about POSIX paths\<close>

subsection \<open>Segments and joins\<close>

lemma segments_nonempty: "segments p \<noteq> []"
  by (induction p) (auto split: list.splits)

lemma segments_no_slash: "s \<in> set (segments p) \<Longrightarrow> CHR ''/'' \<notin> set s"
  by (induction p arbitrary: s) (auto split: list.splits if_splits)

lemma segments_plain: "CHR ''/'' \<notin> set x \<Longrightarrow> segments x = [x]"
  by (induction x) auto

lemma segments_append_slash:
  "CHR ''/'' \<notin> set x \<Longrightarrow> segments (x @ CHR ''/'' # rest) = x # segments rest"
  by (induction x) auto

lemma segments_join:
  "xs \<noteq> [] \<Longrightarrow> \<forall>x\<in>set xs. CHR ''/'' \<notin> set x \<Longrightarrow> segments (join xs ''/'') = xs"
proof (induction xs "''/''" rule: join.induct)
  case 1
  then show ?case by simp
next
  case (2 x)
  then show ?case by (simp add: segments_plain)
next
  case (3 x y ys)
  then show ?case by (simp add: segments_append_slash)
qed

lemma join_Nil_iff: "\<forall>x\<in>set xs. x \<noteq> [] \<Longrightarrow> join xs sep = [] \<longleftrightarrow> xs = []"
  by (induction xs sep rule: join.induct) auto

lemma hd_join: "xs \<noteq> [] \<Longrightarrow> hd xs \<noteq> [] \<Longrightarrow> hd (join xs sep) = hd (hd xs)"
  by (induction xs sep rule: join.induct) auto

lemma last_join:
  "xs \<noteq> [] \<Longrightarrow> \<forall>x\<in>set xs. x \<noteq> [] \<Longrightarrow> last (join xs sep) = last (last xs)"
proof (induction xs sep rule: join.induct)
  case (3 x y ys sep)
  then have "join (y # ys) sep \<noteq> []" by (simp add: join_Nil_iff)
  with 3 show ?case by simp
qed simp_all

subsection \<open>The kept segments\<close>

lemma kept_Nil: "kept allow []"
  by (simp add: kept_def)

lemma kept_elem: "kept allow res \<Longrightarrow> s \<in> set res \<Longrightarrow> s \<noteq> [] \<and> s \<noteq> ''.'' \<and> CHR ''/'' \<notin> set s"
  by (simp add: kept_def)

lemma dropWhile_butlast_subset: "set (dropWhile p (butlast xs)) \<subseteq> set (dropWhile p xs)"
proof (cases xs rule: rev_cases)
  case Nil
  then show ?thesis by simp
next
  case (snoc ys y)
  show ?thesis
  proof (cases "\<forall>x\<in>set ys. p x")
    case True
    then have empty: "dropWhile p ys = []" by simp
    show ?thesis unfolding snoc butlast_snoc empty by simp
  next
    case False
    with snoc show ?thesis by (auto simp: dropWhile_append)
  qed
qed

lemma kept_butlast: "kept allow res \<Longrightarrow> kept allow (butlast res)"
  unfolding kept_def using dropWhile_butlast_subset [of "\<lambda>s. s = ''..''" res]
  by (auto dest: in_set_butlastD)

lemma kept_snoc_plain:
  assumes "kept allow res" "seg \<noteq> []" "seg \<noteq> ''.''" "seg \<noteq> ''..''" "CHR ''/'' \<notin> set seg"
  shows "kept allow (res @ [seg])"
  using assms unfolding kept_def by (auto simp: dropWhile_append)

lemma kept_all_dotdot:
  assumes "kept allow res" "res \<noteq> []" "last res = ''..''"
  shows "\<forall>s\<in>set res. s = ''..''"
proof -
  have "dropWhile (\<lambda>s. s = ''..'') res = []"
  proof (rule ccontr)
    assume ne: "dropWhile (\<lambda>s. s = ''..'') res \<noteq> []"
    then have "last (dropWhile (\<lambda>s. s = ''..'') res) = last res"
      by (metis last_appendR takeWhile_dropWhile_id)
    with ne assms(3) have "''..'' \<in> set (dropWhile (\<lambda>s. s = ''..'') res)"
      by (metis last_in_set)
    with assms(1) show False by (simp add: kept_def)
  qed
  then show ?thesis by simp
qed

lemma kept_snoc_dotdot:
  assumes "kept True res" "res = [] \<or> last res = ''..''"
  shows "kept True (res @ [''..''])"
proof -
  have all: "\<forall>s\<in>set res. s = ''..''"
    using assms kept_all_dotdot by (cases "res = []") auto
  then have "dropWhile (\<lambda>s. s = ''..'') (res @ [''..'']) = []"
    by (simp add: dropWhile_append)
  with all show ?thesis by (auto simp: kept_def)
qed

lemma kept_step:
  assumes "kept allow res" "CHR ''/'' \<notin> set seg"
  shows "kept allow (normalizeStep allow res seg)"
proof -
  consider (skip) "seg = [] \<or> seg = ''.''"
    | (pop) "seg = ''..''" "res \<noteq> [] \<and> last res \<noteq> ''..''"
    | (climb) "seg = ''..''" "res = [] \<or> last res = ''..''" "allow"
    | (stay) "seg = ''..''" "res = [] \<or> last res = ''..''" "\<not> allow"
    | (push) "seg \<noteq> []" "seg \<noteq> ''.''" "seg \<noteq> ''..''"
    by blast
  then show ?thesis
  proof cases
    case skip
    with assms show ?thesis by (auto simp: normalizeStep_def)
  next
    case pop
    with assms show ?thesis by (simp add: normalizeStep_def kept_butlast)
  next
    case climb
    with assms kept_snoc_dotdot [of res] show ?thesis by (auto simp: normalizeStep_def)
  next
    case stay
    with assms show ?thesis by (auto simp: normalizeStep_def)
  next
    case push
    with assms show ?thesis by (simp add: normalizeStep_def kept_snoc_plain)
  qed
qed

lemma kept_foldl:
  "kept allow res \<Longrightarrow> \<forall>s\<in>set segs. CHR ''/'' \<notin> set s \<Longrightarrow>
   kept allow (foldl (normalizeStep allow) res segs)"
  by (induction segs arbitrary: res) (simp_all add: kept_step)

lemma kept_segments: "kept allow (foldl (normalizeStep allow) [] (segments p))"
  by (simp add: kept_foldl kept_Nil segments_no_slash)

lemma kept_replay:
  "kept allow (res @ segs) \<Longrightarrow> foldl (normalizeStep allow) res segs = res @ segs"
proof (induction segs arbitrary: res)
  case Nil
  show ?case by simp
next
  case (Cons seg segs)
  have k: "kept allow ((res @ [seg]) @ segs)" using Cons.prems by simp
  have seg: "seg \<noteq> []" "seg \<noteq> ''.''"
    using kept_elem [OF Cons.prems, of seg] by simp_all
  have "normalizeStep allow res seg = res @ [seg]"
  proof (cases "seg = ''..''")
    case False
    with seg show ?thesis by (simp add: normalizeStep_def)
  next
    case True
    have allow: allow
      using Cons.prems True by (auto simp: kept_def)
    have "res = [] \<or> last res = ''..''"
    proof (rule ccontr)
      assume "\<not> (res = [] \<or> last res = ''..'')"
      then have "\<not> (\<forall>s\<in>set res. s = ''..'')" by (metis last_in_set)
      then have "dropWhile (\<lambda>s. s = ''..'') (res @ seg # segs)
          = dropWhile (\<lambda>s. s = ''..'') res @ seg # segs"
        by (auto simp: dropWhile_append)
      then have "''..'' \<in> set (dropWhile (\<lambda>s. s = ''..'') (res @ seg # segs))"
        using True by simp
      with Cons.prems show False by (simp add: kept_def)
    qed
    with True allow show ?thesis by (auto simp: normalizeStep_def)
  qed
  with Cons.IH [OF k] show ?case by simp
qed

lemma join_snoc: "xs \<noteq> [] \<Longrightarrow> join (xs @ [y]) sep = join xs sep @ sep @ y"
  by (induction xs sep rule: join.induct) auto

lemma kept_nonempty_elems: "kept allow st \<Longrightarrow> \<forall>x\<in>set st. x \<noteq> []"
  by (simp add: kept_def)

lemma kept_join_nonempty: "kept allow st \<Longrightarrow> st \<noteq> [] \<Longrightarrow> join st sep \<noteq> []"
  using join_Nil_iff [of st sep] kept_nonempty_elems by blast

lemma kept_hd_join: 
  assumes "kept allow st" "st \<noteq> []"
  shows "hd (join st sep) \<noteq> CHR ''/''"
proof -
  have "hd st \<in> set st" using assms(2) by simp
  then have h: "hd st \<noteq> []" "CHR ''/'' \<notin> set (hd st)"
    using kept_elem [OF assms(1)] by blast+
  then have "hd (hd st) \<in> set (hd st)" by simp
  with h hd_join [OF assms(2) h(1), of sep] show ?thesis by metis
qed

lemma kept_last_join:
  assumes "kept allow st" "st \<noteq> []"
  shows "last (join st sep) \<noteq> CHR ''/''"
proof -
  have "last st \<in> set st" using assms(2) by simp
  then have h: "last st \<noteq> []" "CHR ''/'' \<notin> set (last st)"
    using kept_elem [OF assms(1)] by blast+
  then have "last (last st) \<in> set (last st)" by simp
  with h last_join [OF assms(2) kept_nonempty_elems [OF assms(1)], of sep] show ?thesis by metis
qed

lemma segments_of_kept:
  assumes "kept allow st" "st \<noteq> []"
  shows "segments ((if rooted then ''/'' else []) @ join st ''/'' @ (if tr then ''/'' else []))
       = (if rooted then [[]] else []) @ st @ (if tr then [[]] else [])"
proof -
  have noslash: "\<forall>x\<in>set st. CHR ''/'' \<notin> set x"
    using kept_elem [OF assms(1)] by blast
  have body: "segments (join st ''/'' @ (if tr then ''/'' else [])) = st @ (if tr then [[]] else [])"
  proof (cases tr)
    case True
    have "join st ''/'' @ ''/'' = join (st @ [[]]) ''/''"
      using assms(2) by (simp add: join_snoc)
    moreover have "segments (join (st @ [[]]) ''/'') = st @ [[]]"
      using noslash by (intro segments_join) auto
    ultimately show ?thesis using True by simp
  next
    case False
    then show ?thesis using segments_join [OF assms(2) noslash] by simp
  qed
  show ?thesis
  proof (cases rooted)
    case True
    have "segments (''/'' @ join st ''/'' @ (if tr then ''/'' else []))
        = [] # segments (join st ''/'' @ (if tr then ''/'' else []))"
      by simp
    with body True show ?thesis by simp
  next
    case False
    with body show ?thesis by simp
  qed
qed

lemma normalizeStep_empty: "normalizeStep allow res [] = res"
  by (simp add: normalizeStep_def)

lemma foldl_of_kept:
  assumes "kept allow st"
  shows "foldl (normalizeStep allow) [] ((if rooted then [[]] else []) @ st @ (if tr then [[]] else [])) = st"
proof -
  have "foldl (normalizeStep allow) [] st = st"
    using kept_replay [of allow "[]" st] assms by simp
  then show ?thesis by (simp add: normalizeStep_empty)
qed

subsection \<open>Normal forms\<close>

lemma posix_normalize_fixed:
  assumes "kept (\<not> rooted) st" "st \<noteq> []"
  shows "posix_normalize ((if rooted then ''/'' else []) @ join st ''/'' @ (if tr then ''/'' else []))
       = (if rooted then ''/'' else []) @ join st ''/'' @ (if tr then ''/'' else [])"
proof -
  let ?q = "(if rooted then ''/'' else []) @ join st ''/'' @ (if tr then ''/'' else [])"
  have j: "join st ''/'' \<noteq> []" using assms by (rule kept_join_nonempty)
  then have q: "?q \<noteq> []" by simp
  have hd_q: "(hd ?q = CHR ''/'') = rooted"
    using kept_hd_join [OF assms, of "''/''"] j by (cases rooted) simp_all
  have last_q: "(last ?q = CHR ''/'') = tr"
    using kept_last_join [OF assms, of "''/''"] j by (cases tr) simp_all
  have norm: "normalizeString ?q (\<not> rooted) = join st ''/''"
    unfolding normalizeString_def segments_of_kept [OF assms] foldl_of_kept [OF assms(1)] ..
  show ?thesis
    unfolding posix_normalize_def Let_def hd_q last_q norm using q j by auto
qed

lemma posix_normalize_form:
  assumes "p \<noteq> []"
  defines "rooted \<equiv> (hd p = CHR ''/'')" and "tr \<equiv> (last p = CHR ''/'')"
  defines "st \<equiv> foldl (normalizeStep (\<not> rooted)) [] (segments p)"
  shows "posix_normalize p =
     (if st = [] then (if rooted then ''/'' else if tr then ''./'' else ''.'')
      else (if rooted then ''/'' else []) @ join st ''/'' @ (if tr then ''/'' else []))"
proof -
  have k: "kept (\<not> rooted) st" unfolding st_def by (rule kept_segments)
  have "join st ''/'' = [] \<longleftrightarrow> st = []"
    using join_Nil_iff kept_nonempty_elems [OF k] by blast
  then show ?thesis
    using assms(1) unfolding posix_normalize_def normalizeString_def Let_def rooted_def [symmetric]
      tr_def [symmetric] st_def [symmetric]
    by auto
qed

lemma posix_normalize_simple:
  "posix_normalize ''/'' = ''/''" "posix_normalize ''./'' = ''./''" "posix_normalize ''.'' = ''.''"
  by (simp_all add: posix_normalize_def normalizeString_def normalizeStep_def)

lemma posix_normalize_idem: "posix_normalize (posix_normalize p) = posix_normalize p"
proof (cases "p = []")
  case True
  then show ?thesis by (simp add: posix_normalize_def normalizeString_def normalizeStep_def)
next
  case False
  define rooted where "rooted = (hd p = CHR ''/'')"
  define tr where "tr = (last p = CHR ''/'')"
  define st where "st = foldl (normalizeStep (\<not> rooted)) [] (segments p)"
  have k: "kept (\<not> rooted) st" unfolding st_def by (rule kept_segments)
  note form = posix_normalize_form [OF False, folded rooted_def tr_def, folded st_def]
  show ?thesis
  proof (cases "st = []")
    case True
    with form show ?thesis by (auto simp: posix_normalize_simple)
  next
    case False
    with form posix_normalize_fixed [OF k False, of tr] show ?thesis by simp
  qed
qed

lemma posix_normalize_absolute: "posix_isAbsolute (posix_normalize p) = posix_isAbsolute p"
proof (cases "p = []")
  case True
  then show ?thesis by (simp add: posix_normalize_def posix_isAbsolute_def)
next
  case False
  define rooted where "rooted = (hd p = CHR ''/'')"
  define tr where "tr = (last p = CHR ''/'')"
  define st where "st = foldl (normalizeStep (\<not> rooted)) [] (segments p)"
  have k: "kept (\<not> rooted) st" unfolding st_def by (rule kept_segments)
  note form = posix_normalize_form [OF False, folded rooted_def tr_def, folded st_def]
  have p: "posix_isAbsolute p = rooted" using False by (simp add: posix_isAbsolute_def rooted_def)
  show ?thesis
  proof (cases "st = []")
    case True
    with form p show ?thesis by (auto simp: posix_isAbsolute_def)
  next
    case False
    have "join st ''/'' \<noteq> []" using k False by (rule kept_join_nonempty)
    with form p False kept_hd_join [OF k False, of "''/''"] show ?thesis
      by (cases rooted) (simp_all add: posix_isAbsolute_def)
  qed
qed

lemma posix_normalize_collapsed:
  assumes "posix_isAbsolute p"
  shows "collapsed (posix_normalize p)"
proof -
  from assms have ne: "p \<noteq> []" and rooted: "hd p = CHR ''/''"
    by (simp_all add: posix_isAbsolute_def)
  define tr where "tr = (last p = CHR ''/'')"
  define st where "st = foldl (normalizeStep False) [] (segments p)"
  have k: "kept False st" unfolding st_def by (rule kept_segments)
  have form: "posix_normalize p = (if st = [] then ''/'' else ''/'' @ join st ''/'' @ (if tr then ''/'' else []))"
    using posix_normalize_form [OF ne] rooted unfolding st_def tr_def by simp
  show ?thesis
  proof (cases "st = []")
    case True
    with form show ?thesis by (simp add: collapsed_def)
  next
    case False
    have seg: "segments (''/'' @ join st ''/'' @ (if tr then ''/'' else [])) = [] # st @ (if tr then [[]] else [])"
      using segments_of_kept [OF _ False, of False True tr] k by simp
    have elems: "\<forall>s\<in>set st. s \<noteq> [] \<and> s \<noteq> ''.'' \<and> s \<noteq> ''..''"
      using k by (auto simp: kept_def)
    have "collapsed (''/'' @ join st ''/'' @ (if tr then ''/'' else []))"
      unfolding collapsed_def seg using elems False
      by (cases tr) (auto dest: in_set_butlastD)
    with form False show ?thesis by simp
  qed
qed

lemma posix_join_absolute:
  assumes "posix_isAbsolute a"
  shows "\<exists>x. posix_isAbsolute x \<and> posix_join [a, b] = posix_normalize x"
proof (cases "b = []")
  case True
  with assms have "posix_join [a, b] = posix_normalize a"
    by (auto simp: posix_join_def posix_isAbsolute_def)
  with assms show ?thesis by blast
next
  case False
  with assms have "posix_join [a, b] = posix_normalize (a @ ''/'' @ b)"
    by (auto simp: posix_join_def posix_isAbsolute_def)
  moreover have "posix_isAbsolute (a @ ''/'' @ b)"
    using assms by (auto simp: posix_isAbsolute_def)
  ultimately show ?thesis by blast
qed

section \<open>The resolver with an override\<close>

lemma findProjectDir_override:
  assumes "activeTextEditor h = Some docUri" "getWorkspaceFolder h docUri = Some folder"
    "cwd (configuration h) = Some template" "template \<noteq> []"
  shows "findProjectDir P h =
       Inr (path_normalize P
             (if path_isAbsolute P (overridePath P docUri template)
              then overridePath P docUri template
              else path_join P (fsPath (uri folder)) (overridePath P docUri template)))"
  using assms by (simp add: findProjectDir_def overridePath_def Let_def)

lemma replace_plain:
  "indexOf s pat = Some i \<Longrightarrow> CHR ''$'' \<notin> set rep \<Longrightarrow>
   replace s pat rep = take i s @ rep @ drop (i + length pat) s"
  by (simp add: replace_def getSubstitution_plain Let_def)

text \<open>
  Claim C1. For a document in a workspace folder and a configured template, the override
  path is the template with only \<^verbatim>\<open>${fileWorkspaceFolder}\<close> replaced: the resolver
  returns the normalized override path when it is absolute and the normalized join of
  the workspace root and the override path otherwise. Every template in which
  \<^verbatim>\<open>${workspaceFolder}\<close> occurs gives an override path in which it still occurs; a template
  without \<^verbatim>\<open>${fileWorkspaceFolder}\<close> is its own override path; and where the parent
  directory of the document has no dollar sign, it stands in the override path in the
  place of the first \<^verbatim>\<open>${fileWorkspaceFolder}\<close>.
\<close>

theorem findProjectDir_keeps_only_second_substitution:
  "activeTextEditor h = Some docUri \<and> getWorkspaceFolder h docUri = Some folder
   \<and> cwd (configuration h) = Some template \<and> template \<noteq> [] \<longrightarrow>
     findProjectDir P h =
       Inr (path_normalize P
             (if path_isAbsolute P (overridePath P docUri template)
              then overridePath P docUri template
              else path_join P (fsPath (uri folder)) (overridePath P docUri template)))
     \<and> (occursIn ''${workspaceFolder}'' template \<longrightarrow>
          occursIn ''${workspaceFolder}'' (overridePath P docUri template))
     \<and> (\<not> occursIn ''${fileWorkspaceFolder}'' template \<longrightarrow>
          overridePath P docUri template = template)
     \<and> (indexOf template ''${fileWorkspaceFolder}'' = Some i
          \<and> CHR ''$'' \<notin> set (path_dirname P (fsPath docUri)) \<longrightarrow>
          overridePath P docUri template =
            take i template @ path_dirname P (fsPath docUri)
              @ drop (i + length ''${fileWorkspaceFolder}'') template)"
proof (intro impI conjI)
  assume "activeTextEditor h = Some docUri \<and> getWorkspaceFolder h docUri = Some folder
   \<and> cwd (configuration h) = Some template \<and> template \<noteq> []"
  then show "findProjectDir P h =
       Inr (path_normalize P
             (if path_isAbsolute P (overridePath P docUri template)
              then overridePath P docUri template
              else path_join P (fsPath (uri folder)) (overridePath P docUri template)))"
    by (simp add: findProjectDir_override)
next
  assume "occursIn ''${workspaceFolder}'' template"
  then show "occursIn ''${workspaceFolder}'' (overridePath P docUri template)"
    unfolding overridePath_def by (rule replace_keeps_workspaceFolder)
next
  assume "\<not> occursIn ''${fileWorkspaceFolder}'' template"
  then show "overridePath P docUri template = template"
    unfolding overridePath_def by (rule replace_absent)
next
  assume "indexOf template ''${fileWorkspaceFolder}'' = Some i
          \<and> CHR ''$'' \<notin> set (path_dirname P (fsPath docUri))"
  then show "overridePath P docUri template =
            take i template @ path_dirname P (fsPath docUri)
              @ drop (i + length ''${fileWorkspaceFolder}'') template"
    unfolding overridePath_def using replace_plain by blast
qed

lemma both_doc: "activeTextEditor bothHost = Some \<lparr> fsPath = ''/ws/pkg/mod.py'' \<rparr>"
  by (simp add: bothHost_def hostWith_def)

lemma both_folder: "getWorkspaceFolder bothHost \<lparr> fsPath = ''/ws/pkg/mod.py'' \<rparr> = Some wsFolder"
  by (simp add: bothHost_def hostWith_def folderOf_def startsWith_def)

lemma both_template:
  "cwd (configuration bothHost) = Some ''${fileWorkspaceFolder}/${workspaceFolder}''"
  by (simp add: bothHost_def hostWith_def)

lemma both_dirname: "posix_dirname ''/ws/pkg/mod.py'' = ''/ws/pkg''"
  by (simp add: posix_dirname_def)

lemma both_normalize: "posix_normalize ''/ws/pkg/${workspaceFolder}'' = ''/ws/pkg/${workspaceFolder}''"
  by (simp add: posix_normalize_def normalizeString_def normalizeStep_def)

theorem findProjectDir_keeps_only_second_substitution_witness:
  "activeTextEditor bothHost = Some \<lparr> fsPath = ''/ws/pkg/mod.py'' \<rparr>
   \<and> getWorkspaceFolder bothHost \<lparr> fsPath = ''/ws/pkg/mod.py'' \<rparr> = Some wsFolder
   \<and> cwd (configuration bothHost) = Some ''${fileWorkspaceFolder}/${workspaceFolder}''
   \<and> occursIn ''${workspaceFolder}'' ''${fileWorkspaceFolder}/${workspaceFolder}''
   \<and> indexOf ''${fileWorkspaceFolder}/${workspaceFolder}'' ''${fileWorkspaceFolder}'' = Some 0
   \<and> CHR ''$'' \<notin> set (path_dirname posix ''/ws/pkg/mod.py'')
   \<and> overridePath posix \<lparr> fsPath = ''/ws/pkg/mod.py'' \<rparr> ''${fileWorkspaceFolder}/${workspaceFolder}''
       = ''/ws/pkg/${workspaceFolder}''
   \<and> occursIn ''${workspaceFolder}'' ''/ws/pkg/${workspaceFolder}''
   \<and> findProjectDir posix bothHost = Inr ''/ws/pkg/${workspaceFolder}''
   \<and> \<not> occursIn ''${fileWorkspaceFolder}'' ''${workspaceFolder}/sub''
   \<and> overridePath posix \<lparr> fsPath = ''/ws/pkg/mod.py'' \<rparr> ''${workspaceFolder}/sub''
       = ''${workspaceFolder}/sub''"
proof -
  let ?doc = "\<lparr> fsPath = ''/ws/pkg/mod.py'' \<rparr>"
  let ?both = "''${fileWorkspaceFolder}/${workspaceFolder}''"
  have prem: "activeTextEditor bothHost = Some ?doc \<and> getWorkspaceFolder bothHost ?doc = Some wsFolder
      \<and> cwd (configuration bothHost) = Some ?both \<and> ?both \<noteq> []"
    using both_doc both_folder both_template by simp
  note claim = findProjectDir_keeps_only_second_substitution
      [of bothHost ?doc wsFolder ?both posix 0, THEN mp, OF prem]
  have occ: "occursIn ''${workspaceFolder}'' ?both"
    by (simp add: occursIn_def startsWith_def)
  have idx: "indexOf ?both ''${fileWorkspaceFolder}'' = Some 0"
    by (simp add: startsWith_def)
  have plain: "CHR ''$'' \<notin> set (path_dirname posix ''/ws/pkg/mod.py'')"
    by (simp add: posix_def both_dirname)
  have "CHR ''$'' \<notin> set (path_dirname posix (fsPath ?doc))"
    using plain by simp
  with claim idx have "overridePath posix ?doc ?both
      = take 0 ?both @ path_dirname posix (fsPath ?doc)
          @ drop (0 + length ''${fileWorkspaceFolder}'') ?both"
    by blast
  then have override: "overridePath posix ?doc ?both = ''/ws/pkg/${workspaceFolder}''"
    by (simp add: posix_def both_dirname)
  from claim occ have "occursIn ''${workspaceFolder}'' (overridePath posix ?doc ?both)"
    by blast
  then have still: "occursIn ''${workspaceFolder}'' ''/ws/pkg/${workspaceFolder}''"
    by (simp only: override)
  have abs: "path_isAbsolute posix ''/ws/pkg/${workspaceFolder}''"
    by (simp add: posix_def posix_isAbsolute_def)
  have norm: "path_normalize posix ''/ws/pkg/${workspaceFolder}'' = ''/ws/pkg/${workspaceFolder}''"
    by (simp add: posix_def both_normalize)
  from claim have "findProjectDir posix bothHost =
       Inr (path_normalize posix
             (if path_isAbsolute posix (overridePath posix ?doc ?both)
              then overridePath posix ?doc ?both
              else path_join posix (fsPath (uri wsFolder)) (overridePath posix ?doc ?both)))"
    by blast
  then have result: "findProjectDir posix bothHost = Inr ''/ws/pkg/${workspaceFolder}''"
    by (simp only: override abs norm if_True)
  have absent: "\<not> occursIn ''${fileWorkspaceFolder}'' ''${workspaceFolder}/sub''"
    by (simp add: occursIn_def startsWith_def)
  have prem': "activeTextEditor subHost = Some ?doc \<and> getWorkspaceFolder subHost ?doc = Some wsFolder
      \<and> cwd (configuration subHost) = Some ''${workspaceFolder}/sub'' \<and> ''${workspaceFolder}/sub'' \<noteq> []"
    by (simp add: subHost_def hostWith_def folderOf_def startsWith_def)
  have same: "overridePath posix ?doc ''${workspaceFolder}/sub'' = ''${workspaceFolder}/sub''"
    using findProjectDir_keeps_only_second_substitution
      [of subHost ?doc wsFolder "''${workspaceFolder}/sub''" posix 0, THEN mp, OF prem'] absent
    by blast
  show ?thesis
    using both_doc both_folder both_template occ idx plain override still result absent same
    by (intro conjI)
qed

text \<open>
  Claim C2. With the template \<^verbatim>\<open>${workspaceFolder}/sub\<close> in the workspace \<^verbatim>\<open>/ws\<close> the
  resolver does not return \<^verbatim>\<open>/ws/sub\<close>: the placeholder is left in the template, and the
  template is joined, as a relative path, onto the workspace root.
\<close>

theorem findProjectDir_workspaceFolder_template_unsubstituted:
  "findProjectDir posix subHost = Inr ''/ws/${workspaceFolder}/sub''
   \<and> findProjectDir posix subHost \<noteq> Inr ''/ws/sub''"
  by (simp add: findProjectDir_def subHost_def hostWith_def folderOf_def wsFolder_def
      startsWith_def replace_def posix_def posix_dirname_def posix_isAbsolute_def posix_join_def
      posix_normalize_def normalizeString_def normalizeStep_def)

section \<open>The resolver without an override\<close>

lemma findProjectDir_no_override:
  assumes "cwd (configuration h) = None \<or> cwd (configuration h) = Some []"
    and "activeTextEditor h = Some docUri" "getWorkspaceFolder h docUri = Some folder"
  shows "findProjectDir P h = Inr (path_normalize P (fsPath (uri folder)))"
  using assms by (auto simp: findProjectDir_def)

lemma findProjectDir_outside:
  assumes "activeTextEditor h = Some docUri" "getWorkspaceFolder h docUri = None"
  shows "findProjectDir P h = Inr (path_dirname P (fsPath docUri))"
  using assms by (simp add: findProjectDir_def)

lemma ext_findProjectDir_eq:
  assumes "activeTextEditor h = Some docUri"
  shows "ext_findProjectDir P h =
     (case getWorkspaceFolder h docUri of
        Some folder \<Rightarrow> Inr (fsPath (uri folder))
      | None \<Rightarrow> Inr (path_dirname P (fsPath docUri)))"
  using assms by (simp add: ext_findProjectDir_def split: option.splits)

text \<open>
  Claim C4, as amended. With no override (no \<^verbatim>\<open>cwd\<close> entry, or an empty one) and a
  document in a workspace folder, the resolver of \<^verbatim>\<open>utils.ts\<close> returns the normalized
  root path of the folder. For a document in no workspace folder it returns the parent
  directory of the document as \<^verbatim>\<open>path.dirname\<close> gives it, not normalized. The resolver
  of \<^verbatim>\<open>extension.ts\<close> returns the root path, or the parent directory, as it is.
\<close>

theorem findProjectDir_without_override:
  "(activeTextEditor h = Some docUri \<and> getWorkspaceFolder h docUri = Some folder
      \<and> (cwd (configuration h) = None \<or> cwd (configuration h) = Some [])
      \<longrightarrow> findProjectDir P h = Inr (path_normalize P (fsPath (uri folder))))
   \<and> (activeTextEditor h = Some docUri \<and> getWorkspaceFolder h docUri = None
      \<longrightarrow> findProjectDir P h = Inr (path_dirname P (fsPath docUri))
        \<and> ext_findProjectDir P h = Inr (path_dirname P (fsPath docUri)))
   \<and> (activeTextEditor h = Some docUri \<and> getWorkspaceFolder h docUri = Some folder
      \<longrightarrow> ext_findProjectDir P h = Inr (fsPath (uri folder)))"
  by (simp add: findProjectDir_no_override findProjectDir_outside ext_findProjectDir_eq)

theorem findProjectDir_without_override_witness:
  "activeTextEditor wsHost = Some \<lparr> fsPath = ''/ws/pkg/mod.py'' \<rparr>
   \<and> getWorkspaceFolder wsHost \<lparr> fsPath = ''/ws/pkg/mod.py'' \<rparr> = Some wsFolder
   \<and> cwd (configuration wsHost) = None
   \<and> findProjectDir posix wsHost = Inr ''/ws''
   \<and> ext_findProjectDir posix wsHost = Inr ''/ws''
   \<and> activeTextEditor outsideHost = Some \<lparr> fsPath = ''/a/../b/c.py'' \<rparr>
   \<and> getWorkspaceFolder outsideHost \<lparr> fsPath = ''/a/../b/c.py'' \<rparr> = None
   \<and> findProjectDir posix outsideHost = Inr ''/a/../b''
   \<and> ext_findProjectDir posix outsideHost = Inr ''/a/../b''"
proof -
  have ws: "activeTextEditor wsHost = Some \<lparr> fsPath = ''/ws/pkg/mod.py'' \<rparr>"
    "getWorkspaceFolder wsHost \<lparr> fsPath = ''/ws/pkg/mod.py'' \<rparr> = Some wsFolder"
    "cwd (configuration wsHost) = None"
    by (simp_all add: wsHost_def hostWith_def folderOf_def startsWith_def)
  have out: "activeTextEditor outsideHost = Some \<lparr> fsPath = ''/a/../b/c.py'' \<rparr>"
    "getWorkspaceFolder outsideHost \<lparr> fsPath = ''/a/../b/c.py'' \<rparr> = None"
    by (simp_all add: outsideHost_def hostWith_def folderOf_def startsWith_def)
  have root: "path_normalize posix (fsPath (uri wsFolder)) = ''/ws''" "fsPath (uri wsFolder) = ''/ws''"
    by (simp_all add: posix_def wsFolder_def posix_normalize_def normalizeString_def normalizeStep_def)
  have parent: "path_dirname posix ''/a/../b/c.py'' = ''/a/../b''"
    by (simp add: posix_def posix_dirname_def)
  show ?thesis
    using findProjectDir_without_override [of wsHost "\<lparr> fsPath = ''/ws/pkg/mod.py'' \<rparr>" wsFolder posix]
      findProjectDir_without_override [of outsideHost "\<lparr> fsPath = ''/a/../b/c.py'' \<rparr>" wsFolder posix]
      ws out root parent
    by simp
qed

text \<open>
  The claim as first stated fails for a document outside the workspace whose path has a
  \<^verbatim>\<open>..\<close> segment: the parent directory is returned with the segment in it.
\<close>

theorem findProjectDir_outside_not_normalized:
  "findProjectDir posix outsideHost = Inr ''/a/../b''
   \<and> posix_normalize (posix_dirname ''/a/../b/c.py'') = ''/b''
   \<and> findProjectDir posix outsideHost \<noteq> Inr (posix_normalize (posix_dirname ''/a/../b/c.py''))"
  by (simp add: findProjectDir_def outsideHost_def hostWith_def folderOf_def startsWith_def
      posix_def posix_dirname_def posix_normalize_def normalizeString_def normalizeStep_def)

section \<open>Absolute and normalized results\<close>

lemma findProjectDir_workspace_form:
  assumes doc: "activeTextEditor h = Some docUri"
    and folder: "getWorkspaceFolder h docUri = Some folder"
    and root: "posix_isAbsolute (fsPath (uri folder))"
  shows "\<exists>x. posix_isAbsolute x \<and> findProjectDir posix h = Inr (posix_normalize x)"
proof (cases "cwd (configuration h) = None \<or> cwd (configuration h) = Some []")
  case True
  then have "findProjectDir posix h = Inr (posix_normalize (fsPath (uri folder)))"
    using findProjectDir_no_override [OF _ doc folder, of posix] by (simp add: posix_def)
  with root show ?thesis by blast
next
  case False
  then obtain template where t: "cwd (configuration h) = Some template" "template \<noteq> []"
    by auto
  define override where "override = overridePath posix docUri template"
  have res: "findProjectDir posix h =
      Inr (posix_normalize (if posix_isAbsolute override then override
                            else posix_join [fsPath (uri folder), override]))"
    using findProjectDir_override [OF doc folder t, of posix]
    by (simp add: posix_def override_def)
  show ?thesis
  proof (cases "posix_isAbsolute override")
    case True
    with res show ?thesis by auto
  next
    case False
    from posix_join_absolute [OF root, of override] obtain x
      where x: "posix_isAbsolute x" "posix_join [fsPath (uri folder), override] = posix_normalize x"
      by blast
    with res False have "findProjectDir posix h = Inr (posix_normalize x)"
      by (simp add: posix_normalize_idem)
    with x(1) show ?thesis by blast
  qed
qed

text \<open>
  Claim C3, as amended, on POSIX paths. With no active editor the resolver fails. For a
  document in a workspace folder whose root path is absolute, with or without an
  override, it returns an absolute path that \<^verbatim>\<open>path.normalize\<close> leaves unchanged and in
  which redundant separators and relative segments are collapsed. For a document in no
  workspace folder it returns the parent directory of the document as
  \<^verbatim>\<open>path.dirname\<close> gives it.
\<close>

theorem findProjectDir_workspace_absolute_normalized:
  "(activeTextEditor h = None \<longrightarrow> findProjectDir posix h = Inl NoActiveDocument)
   \<and> (activeTextEditor h = Some docUri \<and> getWorkspaceFolder h docUri = Some folder
        \<and> posix_isAbsolute (fsPath (uri folder)) \<longrightarrow>
        (\<exists>dir. findProjectDir posix h = Inr dir \<and> posix_isAbsolute dir
               \<and> posix_normalize dir = dir \<and> collapsed dir))
   \<and> (activeTextEditor h = Some docUri \<and> getWorkspaceFolder h docUri = None \<longrightarrow>
        findProjectDir posix h = Inr (posix_dirname (fsPath docUri)))"
proof (intro conjI impI)
  assume "activeTextEditor h = None"
  then show "findProjectDir posix h = Inl NoActiveDocument"
    by (simp add: findProjectDir_def NoActiveDocument_def)
next
  assume a: "activeTextEditor h = Some docUri \<and> getWorkspaceFolder h docUri = Some folder
        \<and> posix_isAbsolute (fsPath (uri folder))"
  then obtain x where x: "posix_isAbsolute x" "findProjectDir posix h = Inr (posix_normalize x)"
    using findProjectDir_workspace_form by blast
  have "posix_isAbsolute (posix_normalize x)" using x(1) by (simp add: posix_normalize_absolute)
  moreover have "posix_normalize (posix_normalize x) = posix_normalize x" by (rule posix_normalize_idem)
  moreover have "collapsed (posix_normalize x)" using x(1) by (rule posix_normalize_collapsed)
  ultimately show "\<exists>dir. findProjectDir posix h = Inr dir \<and> posix_isAbsolute dir
               \<and> posix_normalize dir = dir \<and> collapsed dir"
    using x(2) by blast
next
  assume "activeTextEditor h = Some docUri \<and> getWorkspaceFolder h docUri = None"
  then show "findProjectDir posix h = Inr (posix_dirname (fsPath docUri))"
    using findProjectDir_outside [of h docUri posix] by (simp add: posix_def)
qed

theorem findProjectDir_workspace_absolute_normalized_witness:
  "activeTextEditor subHost = Some \<lparr> fsPath = ''/ws/pkg/mod.py'' \<rparr>
   \<and> getWorkspaceFolder subHost \<lparr> fsPath = ''/ws/pkg/mod.py'' \<rparr> = Some wsFolder
   \<and> posix_isAbsolute (fsPath (uri wsFolder))
   \<and> findProjectDir posix subHost = Inr ''/ws/${workspaceFolder}/sub''
   \<and> posix_isAbsolute ''/ws/${workspaceFolder}/sub''
   \<and> posix_normalize ''/ws/${workspaceFolder}/sub'' = ''/ws/${workspaceFolder}/sub''
   \<and> collapsed ''/ws/${workspaceFolder}/sub''
   \<and> activeTextEditor noEditorHost = None
   \<and> findProjectDir posix noEditorHost = Inl NoActiveDocument
   \<and> activeTextEditor untitledHost = Some \<lparr> fsPath = ''Untitled-1'' \<rparr>
   \<and> getWorkspaceFolder untitledHost \<lparr> fsPath = ''Untitled-1'' \<rparr> = None
   \<and> findProjectDir posix untitledHost = Inr (posix_dirname ''Untitled-1'')"
proof -
  have sub: "activeTextEditor subHost = Some \<lparr> fsPath = ''/ws/pkg/mod.py'' \<rparr>"
    "getWorkspaceFolder subHost \<lparr> fsPath = ''/ws/pkg/mod.py'' \<rparr> = Some wsFolder"
    "posix_isAbsolute (fsPath (uri wsFolder))"
    by (simp_all add: subHost_def hostWith_def folderOf_def startsWith_def wsFolder_def
        posix_isAbsolute_def)
  have val: "findProjectDir posix subHost = Inr ''/ws/${workspaceFolder}/sub''"
    by (simp add: findProjectDir_def subHost_def hostWith_def folderOf_def wsFolder_def
      startsWith_def replace_def posix_def posix_dirname_def posix_isAbsolute_def posix_join_def
      posix_normalize_def normalizeString_def normalizeStep_def)
  have none: "activeTextEditor noEditorHost = None"
    by (simp add: noEditorHost_def hostWith_def)
  have untitled: "activeTextEditor untitledHost = Some \<lparr> fsPath = ''Untitled-1'' \<rparr>"
    "getWorkspaceFolder untitledHost \<lparr> fsPath = ''Untitled-1'' \<rparr> = None"
    by (simp_all add: untitledHost_def hostWith_def folderOf_def startsWith_def)
  from findProjectDir_workspace_absolute_normalized
      [of subHost "\<lparr> fsPath = ''/ws/pkg/mod.py'' \<rparr>" wsFolder] sub val
  have a: "posix_isAbsolute ''/ws/${workspaceFolder}/sub''
      \<and> posix_normalize ''/ws/${workspaceFolder}/sub'' = ''/ws/${workspaceFolder}/sub''
      \<and> collapsed ''/ws/${workspaceFolder}/sub''"
    by auto
  from findProjectDir_workspace_absolute_normalized [of noEditorHost] none
  have b: "findProjectDir posix noEditorHost = Inl NoActiveDocument" by blast
  from findProjectDir_workspace_absolute_normalized
      [of untitledHost "\<lparr> fsPath = ''Untitled-1'' \<rparr>"] untitled
  have c: "findProjectDir posix untitledHost = Inr (posix_dirname ''Untitled-1'')" by simp
  show ?thesis using sub val a none b untitled c by simp
qed

text \<open>
  The claim as first stated fails in the branch for a document outside any workspace
  folder: for an untitled document the resolver returns the relative path \<^verbatim>\<open>.\<close>.
\<close>

theorem findProjectDir_untitled_relative:
  "findProjectDir posix untitledHost = Inr ''.'' \<and> \<not> posix_isAbsolute ''.''"
  by (simp add: findProjectDir_def untitledHost_def hostWith_def folderOf_def startsWith_def
      posix_def posix_dirname_def posix_isAbsolute_def)

end
